theory Spec2Isabelle
  imports Complex_Main "HOL-Library.AList"
begin

section \<open>DCO capacity reporter: the program\<close>

text \<open>
  A shallow embedding of \<^verbatim>\<open>capacity_reporter.py\<close>. Conventions:
  \<^item> an asset is a JSON object; each of the seven fields the program reads is present
    (\<open>Some\<close>) or absent (\<open>None\<close>), and subscripting an absent field raises
    \<^verbatim>\<open>KeyError\<close> with the field's name. A present field holds a value of the type
    the data model gives it (a string, an integer, a number);
  \<^item> Python numbers that may be floats (\<^verbatim>\<open>power_watts\<close>, \<^verbatim>\<open>asset_age_years\<close>
    and everything derived from them by \<^verbatim>\<open>/\<close>) are exact rationals: the rounding
    of IEEE arithmetic is not represented;
  \<^item> the \<^verbatim>\<open>racks\<close> dictionary is an association list in insertion order, which is
    the iteration order of a Python dictionary;
  \<^item> a string is the list of its characters, and a character is a code point below
    256; padding widths count characters, as in Python. Text with other characters
    is not represented.
\<close>

subsection \<open>Configuration\<close>

definition DATA_FILE :: string where
  "DATA_FILE = ''dcim_data.json''"

definition MAX_RACK_UNITS :: int where
  "MAX_RACK_UNITS = 42"

definition MAX_RACK_POWER_KVA :: rat where
  "MAX_RACK_POWER_KVA = 5"

definition EOL_AGE_YEARS :: rat where
  "EOL_AGE_YEARS = 5"

definition CRITICAL_VENDORS :: "string list" where
  "CRITICAL_VENDORS = [''HP'', ''EMC'']"

subsection \<open>Data\<close>

record asset =
  asset_id :: "string option"
  rack_id :: "string option"
  status :: "string option"
  rack_units :: "int option"
  power_watts :: "rat option"
  asset_age_years :: "rat option"
  vendor :: "string option"

text \<open>The value of \<^verbatim>\<open>racks[rack_id]\<close>.\<close>

record rack_metrics =
  units_used :: int
  power_used_watts :: rat

type_synonym racks = "(string \<times> rack_metrics) list"

text \<open>An element of \<^verbatim>\<open>capacity_metrics\<close>; the last three fields are formatted text.\<close>

record capacity_metric =
  cm_rack_id :: string
  cm_units_used :: int
  cm_power_used_kva :: string
  cm_power_utilization :: string
  cm_units_utilization :: string

record eol_asset =
  eol_id :: string
  eol_rack :: string
  eol_age :: rat
  eol_status :: string

record vendor_risk_asset =
  vr_id :: string
  vr_rack :: string
  vr_vendor :: string
  vr_age :: rat

datatype error = KeyError string

text \<open>\<^verbatim>\<open>asset[name]\<close>: the value, or \<^verbatim>\<open>KeyError(name)\<close>.\<close>

definition subscript :: "string \<Rightarrow> 'a option \<Rightarrow> error + 'a" where
  "subscript name field = (case field of None \<Rightarrow> Inl (KeyError name) | Some v \<Rightarrow> Inr v)"

text \<open>Sequencing of two computations that may raise.\<close>

definition and_then :: "error + 'a \<Rightarrow> ('a \<Rightarrow> error + 'b) \<Rightarrow> error + 'b" where
  "and_then r f = (case r of Inl e \<Rightarrow> Inl e | Inr v \<Rightarrow> f v)"

subsection \<open>Text formatting\<close>

function show_nat :: "nat \<Rightarrow> string" where
  "show_nat n =
     (if n < 10 then [''0123456789'' ! n]
      else show_nat (n div 10) @ [''0123456789'' ! (n mod 10)])"
  by pat_completeness auto
termination
  by (relation "measure id") auto

text \<open>\<^verbatim>\<open>str(i)\<close> for an integer.\<close>

definition show_int :: "int \<Rightarrow> string" where
  "show_int i = (if i < 0 then ''-'' @ show_nat (nat (- i)) else show_nat (nat i))"

text \<open>Rounding to the nearest integer, an exact tie to the even neighbour.\<close>

definition round_half_even :: "rat \<Rightarrow> int" where
  "round_half_even x =
     (let f = \<lfloor>x\<rfloor>; r = x - of_int f
      in if r < 1 / 2 then f
         else if 1 / 2 < r then f + 1
         else if even f then f else f + 1)"

text \<open>The format specification \<^verbatim>\<open>.kf\<close>: fixed point with \<open>k\<close> fractional digits.\<close>

definition format_fixed :: "nat \<Rightarrow> rat \<Rightarrow> string" where
  "format_fixed k x =
     (let n = nat (round_half_even (\<bar>x\<bar> * 10 ^ k));
          whole = show_nat (n div 10 ^ k);
          frac = show_nat (n mod 10 ^ k)
      in (if x < 0 then ''-'' else '''') @ whole @
         (if k = 0 then '''' else ''.'' @ replicate (k - length frac) CHR ''0'' @ frac))"

text \<open>The format specification \<^verbatim>\<open><w\<close>: left-aligned in a field of width \<open>w\<close>.\<close>

definition ljust :: "nat \<Rightarrow> string \<Rightarrow> string" where
  "ljust w s = s @ replicate (w - length s) CHR '' ''"

definition newline :: string where
  "newline = [CHR 0x0A]"

text \<open>\<^verbatim>\<open>sep.join(parts)\<close>.\<close>

fun join :: "string \<Rightarrow> string list \<Rightarrow> string" where
  "join sep [] = ''''"
| "join sep [s] = s"
| "join sep (s # t # ts) = s @ sep @ join sep (t # ts)"

subsection \<open>\<^verbatim>\<open>load_data\<close>\<close>

text \<open>
  The file system maps a file name to the decoded content of the file, \<open>None\<close> when
  there is no such file. The result is what the function printed and what it returned.
\<close>

definition load_data :: "(string \<Rightarrow> asset list option) \<Rightarrow> string \<Rightarrow> string list \<times> asset list" where
  "load_data fs filename =
     (case fs filename of
        Some content \<Rightarrow> ([], content)
      | None \<Rightarrow> ([''Error: Data file '' @ filename @ '' not found.''], []))"

subsection \<open>\<^verbatim>\<open>analyze_capacity\<close>\<close>

text \<open>The first loop, over the assets, with the dictionary \<^verbatim>\<open>racks\<close> as its state.\<close>

fun aggregate :: "asset list \<Rightarrow> racks \<Rightarrow> error + racks" where
  "aggregate [] racks = Inr racks"
| "aggregate (a # as) racks =
     and_then (subscript ''rack_id'' (rack_id a)) (\<lambda>rid.
       let racks1 =
             (if map_of racks rid = None
              then AList.update rid \<lparr>units_used = 0, power_used_watts = 0\<rparr> racks
              else racks)
       in and_then (subscript ''status'' (status a)) (\<lambda>st.
            if st = ''Online''
            then and_then (subscript ''rack_units'' (rack_units a)) (\<lambda>u.
                   let racks2 = AList.map_entry rid (\<lambda>m. m\<lparr>units_used := units_used m + u\<rparr>) racks1
                   in and_then (subscript ''power_watts'' (power_watts a)) (\<lambda>p.
                        aggregate as
                          (AList.map_entry rid
                             (\<lambda>m. m\<lparr>power_used_watts := power_used_watts m + p\<rparr>) racks2)))
            else aggregate as racks1))"

text \<open>The body of the second loop: the metric of one rack.\<close>

definition power_used_kva_of :: "rat \<Rightarrow> rat" where
  "power_used_kva_of watts = watts / 1000"

definition power_utilization_of :: "rat \<Rightarrow> rat" where
  "power_utilization_of watts = (power_used_kva_of watts / MAX_RACK_POWER_KVA) * 100"

definition units_utilization_of :: "int \<Rightarrow> rat" where
  "units_utilization_of units = (of_int units / of_int MAX_RACK_UNITS) * 100"

definition rack_metric :: "string \<Rightarrow> rack_metrics \<Rightarrow> capacity_metric" where
  "rack_metric rid metrics =
     \<lparr>cm_rack_id = rid,
      cm_units_used = units_used metrics,
      cm_power_used_kva = format_fixed 2 (power_used_kva_of (power_used_watts metrics)),
      cm_power_utilization =
        format_fixed 1 (power_utilization_of (power_used_watts metrics)) @ ''%'',
      cm_units_utilization =
        format_fixed 1 (units_utilization_of (units_used metrics)) @ ''%''\<rparr>"

text \<open>The second loop, over \<^verbatim>\<open>racks.items()\<close>, with its two accumulators.\<close>

fun finalize :: "racks \<Rightarrow> capacity_metric list \<Rightarrow> rat \<Rightarrow> capacity_metric list \<times> rat" where
  "finalize [] capacity_metrics total_power_used_watts =
     (capacity_metrics, total_power_used_watts)"
| "finalize ((rid, metrics) # rest) capacity_metrics total_power_used_watts =
     finalize rest (capacity_metrics @ [rack_metric rid metrics])
       (total_power_used_watts + power_used_watts metrics)"

definition analyze_capacity :: "asset list \<Rightarrow> error + (capacity_metric list \<times> nat \<times> rat)" where
  "analyze_capacity assets =
     (let total_assets = length assets
      in and_then (aggregate assets []) (\<lambda>racks.
           let (capacity_metrics, total_power_used_watts) = finalize racks [] 0
           in Inr (capacity_metrics, total_assets, total_power_used_watts)))"

subsection \<open>\<^verbatim>\<open>check_compliance_and_eol\<close>\<close>

text \<open>The loop, with the two result lists as its state.\<close>

fun classify ::
  "asset list \<Rightarrow> eol_asset list \<Rightarrow> vendor_risk_asset list \<Rightarrow>
   error + (eol_asset list \<times> vendor_risk_asset list)" where
  "classify [] eol_assets vendor_risk_assets = Inr (eol_assets, vendor_risk_assets)"
| "classify (a # as) eol_assets vendor_risk_assets =
     and_then
       (and_then (subscript ''asset_age_years'' (asset_age_years a)) (\<lambda>age.
          if EOL_AGE_YEARS \<le> age
          then and_then (subscript ''status'' (status a)) (\<lambda>st.
                 if st \<noteq> ''Decom Pending''
                 then and_then (subscript ''asset_id'' (asset_id a)) (\<lambda>i.
                        and_then (subscript ''rack_id'' (rack_id a)) (\<lambda>r.
                          and_then (subscript ''asset_age_years'' (asset_age_years a)) (\<lambda>g.
                            Inr (eol_assets @
                              [\<lparr>eol_id = i, eol_rack = r, eol_age = g,
                                eol_status = ''EOL Risk''\<rparr>]))))
                 else Inr eol_assets)
          else Inr eol_assets))
       (\<lambda>eol_assets1.
          and_then
            (and_then (subscript ''vendor'' (vendor a)) (\<lambda>v.
               if v \<in> set CRITICAL_VENDORS
               then and_then (subscript ''status'' (status a)) (\<lambda>st.
                      if st = ''Online''
                      then and_then (subscript ''asset_id'' (asset_id a)) (\<lambda>i.
                             and_then (subscript ''rack_id'' (rack_id a)) (\<lambda>r.
                               and_then (subscript ''vendor'' (vendor a)) (\<lambda>w.
                                 and_then (subscript ''asset_age_years'' (asset_age_years a)) (\<lambda>g.
                                   Inr (vendor_risk_assets @
                                     [\<lparr>vr_id = i, vr_rack = r, vr_vendor = w, vr_age = g\<rparr>])))))
                      else Inr vendor_risk_assets)
               else Inr vendor_risk_assets))
            (\<lambda>vendor_risk_assets1. classify as eol_assets1 vendor_risk_assets1))"

definition check_compliance_and_eol ::
  "asset list \<Rightarrow> error + (eol_asset list \<times> vendor_risk_asset list)" where
  "check_compliance_and_eol assets = classify assets [] []"

subsection \<open>\<^verbatim>\<open>generate_report\<close>\<close>

definition capacity_row :: "capacity_metric \<Rightarrow> string" where
  "capacity_row metric =
     ljust 10 (cm_rack_id metric) @ ljust 10 (show_int (cm_units_used metric)) @
     ljust 15 (cm_power_used_kva metric) @ ljust 12 (cm_units_utilization metric) @
     ljust 12 (cm_power_utilization metric)"

definition eol_row :: "eol_asset \<Rightarrow> string" where
  "eol_row asset =
     ljust 15 (eol_id asset) @ ljust 10 (eol_rack asset) @
     ljust 10 (format_fixed 1 (eol_age asset)) @ ljust 15 (eol_status asset)"

definition vendor_row :: "vendor_risk_asset \<Rightarrow> string" where
  "vendor_row asset =
     ljust 15 (vr_id asset) @ ljust 10 (vr_rack asset) @
     ljust 10 (vr_vendor asset) @ ljust 10 (format_fixed 1 (vr_age asset))"

text \<open>
  \<^verbatim>\<open>str(EOL_AGE_YEARS)\<close>, interpolated into the header of the EOL section: the
  constant is the float \<^verbatim>\<open>5.0\<close>, whose text is \<^verbatim>\<open>5.0\<close>.
\<close>

definition EOL_AGE_YEARS_text :: string where
  "EOL_AGE_YEARS_text = ''5.0''"

text \<open>The lines appended by the branch on \<^verbatim>\<open>eol_assets\<close>.\<close>

definition eol_section :: "eol_asset list \<Rightarrow> string list" where
  "eol_section eol_assets =
     (if eol_assets \<noteq> []
      then [''### EOL Assets (Age >= '' @ EOL_AGE_YEARS_text @ '' Years): '' @
              show_nat (length eol_assets) @ '' Devices Identified'',
            ljust 15 ''Asset ID'' @ ljust 10 ''Rack ID'' @ ljust 10 ''Age (Yrs)'' @
              ljust 15 ''Status'',
            replicate 50 CHR ''-'']
           @ map eol_row eol_assets
      else [''### EOL Assets: 0 devices identified. Compliance maintained.''])"

text \<open>The lines appended by the branch on \<^verbatim>\<open>vendor_risk_assets\<close>.\<close>

definition vendor_section :: "vendor_risk_asset list \<Rightarrow> string list" where
  "vendor_section vendor_risk_assets =
     (if vendor_risk_assets \<noteq> []
      then [''### High-Risk Vendor Assets ('' @ join '', '' CRITICAL_VENDORS @ ''): '' @
              show_nat (length vendor_risk_assets) @ '' Devices Identified'',
            ljust 15 ''Asset ID'' @ ljust 10 ''Rack ID'' @ ljust 10 ''Vendor'' @
              ljust 10 ''Age (Yrs)'',
            replicate 45 CHR ''-'']
           @ map vendor_row vendor_risk_assets
      else [''### High-Risk Vendors: No active assets from critical vendors identified.''])"

text \<open>The lines appended before the branch on \<^verbatim>\<open>eol_assets\<close>: header and section 1.\<close>

definition report_head :: "capacity_metric list \<Rightarrow> nat \<Rightarrow> rat \<Rightarrow> string list" where
  "report_head capacity_metrics total_assets total_power_watts =
     [replicate 60 CHR ''='',
      ''  DCO CAPACITY AND COMPLIANCE REPORT'',
      ''  Total Assets Tracked: '' @ show_nat total_assets,
      ''  Total Active Power Draw: '' @ format_fixed 2 (total_power_watts / 1000) @ '' kVA'',
      replicate 60 CHR ''='',
      newline,
      ''--- 1. RACK CAPACITY UTILIZATION (by Rack ID) ---'' @ newline,
      ljust 10 ''Rack ID'' @ ljust 10 ''U Used'' @ ljust 15 ''Power (kVA)'' @
        ljust 12 ''U Util.'' @ ljust 12 ''Power Util.'',
      replicate 60 CHR ''-'']
     @ map capacity_row capacity_metrics
     @ [newline,
        ''--- 2. COMPLIANCE & END-OF-LIFE RISKS ---'' @ newline]"

text \<open>The list \<^verbatim>\<open>report\<close> as it stands before the final \<^verbatim>\<open>join\<close>.\<close>

definition report_lines ::
  "capacity_metric list \<Rightarrow> nat \<Rightarrow> rat \<Rightarrow> eol_asset list \<Rightarrow> vendor_risk_asset list \<Rightarrow>
   string list" where
  "report_lines capacity_metrics total_assets total_power_watts eol_assets vendor_risk_assets =
     report_head capacity_metrics total_assets total_power_watts
     @ eol_section eol_assets
     @ [newline]
     @ vendor_section vendor_risk_assets
     @ [newline,
        ''--- END OF REPORT ---'']"

definition generate_report ::
  "capacity_metric list \<Rightarrow> nat \<Rightarrow> rat \<Rightarrow> eol_asset list \<Rightarrow> vendor_risk_asset list \<Rightarrow> string" where
  "generate_report capacity_metrics total_assets total_power_watts eol_assets vendor_risk_assets =
     join newline
       (report_lines capacity_metrics total_assets total_power_watts eol_assets vendor_risk_assets)"

subsection \<open>The main block\<close>

text \<open>What a run printed, line by line, and the exception that ended it, if any.\<close>

record outcome =
  printed :: "string list"
  raised :: "error option"

definition main_block :: "(string \<Rightarrow> asset list option) \<Rightarrow> outcome" where
  "main_block fs =
     (let (out, assets) = load_data fs DATA_FILE
      in if assets \<noteq> []
         then (case analyze_capacity assets of
                 Inl e \<Rightarrow> \<lparr>printed = out, raised = Some e\<rparr>
               | Inr (capacity_metrics, total_assets, total_power_watts) \<Rightarrow>
                   (case check_compliance_and_eol assets of
                      Inl e \<Rightarrow> \<lparr>printed = out, raised = Some e\<rparr>
                    | Inr (eol_assets, vendor_risk_assets) \<Rightarrow>
                        \<lparr>printed = out @
                           [generate_report capacity_metrics total_assets total_power_watts
                              eol_assets vendor_risk_assets],
                         raised = None\<rparr>))
         else \<lparr>printed = out, raised = None\<rparr>)"

section \<open>Vocabulary of the specification\<close>

text \<open>
  The notions the properties below are stated in. They follow the wording of the
  specification, not the loops of the program.
\<close>

definition online :: "asset \<Rightarrow> bool" where
  "online a = (status a = Some ''Online'')"

text \<open>Space and power drawn in rack \<open>r\<close>: the sums over the online assets placed there.\<close>

definition units_in_rack :: "string \<Rightarrow> asset list \<Rightarrow> int" where
  "units_in_rack r assets =
     sum_list (map (\<lambda>a. the (rack_units a)) (filter (\<lambda>a. rack_id a = Some r \<and> online a) assets))"

definition power_in_rack :: "string \<Rightarrow> asset list \<Rightarrow> rat" where
  "power_in_rack r assets =
     sum_list (map (\<lambda>a. the (power_watts a)) (filter (\<lambda>a. rack_id a = Some r \<and> online a) assets))"

definition online_power :: "asset list \<Rightarrow> rat" where
  "online_power assets = sum_list (map (\<lambda>a. the (power_watts a)) (filter online assets))"

definition rack_total :: "string \<Rightarrow> asset list \<Rightarrow> rack_metrics" where
  "rack_total r assets =
     \<lparr>units_used = units_in_rack r assets, power_used_watts = power_in_rack r assets\<rparr>"

text \<open>The distinct elements of a list, in the order of their first appearance.\<close>

fun first_seen :: "'a list \<Rightarrow> 'a list" where
  "first_seen [] = []"
| "first_seen (x # xs) = x # filter (\<lambda>y. y \<noteq> x) (first_seen xs)"

text \<open>The two predicates of the compliance classifier and the records it derives.\<close>

definition is_eol :: "asset \<Rightarrow> bool" where
  "is_eol a = (EOL_AGE_YEARS \<le> the (asset_age_years a) \<and> status a \<noteq> Some ''Decom Pending'')"

definition is_vendor_risk :: "asset \<Rightarrow> bool" where
  "is_vendor_risk a = (the (vendor a) \<in> set CRITICAL_VENDORS \<and> status a = Some ''Online'')"

definition eol_entry :: "asset \<Rightarrow> eol_asset" where
  "eol_entry a =
     \<lparr>eol_id = the (asset_id a), eol_rack = the (rack_id a), eol_age = the (asset_age_years a),
      eol_status = ''EOL Risk''\<rparr>"

definition vendor_entry :: "asset \<Rightarrow> vendor_risk_asset" where
  "vendor_entry a =
     \<lparr>vr_id = the (asset_id a), vr_rack = the (rack_id a), vr_vendor = the (vendor a),
      vr_age = the (asset_age_years a)\<rparr>"

text \<open>Whether the record holds the field of that name.\<close>

definition has_field :: "string \<Rightarrow> asset \<Rightarrow> bool" where
  "has_field k a =
     (if k = ''asset_id'' then asset_id a \<noteq> None
      else if k = ''rack_id'' then rack_id a \<noteq> None
      else if k = ''status'' then status a \<noteq> None
      else if k = ''rack_units'' then rack_units a \<noteq> None
      else if k = ''power_watts'' then power_watts a \<noteq> None
      else if k = ''asset_age_years'' then asset_age_years a \<noteq> None
      else if k = ''vendor'' then vendor a \<noteq> None
      else False)"

text \<open>
  The fields \<^verbatim>\<open>analyze_capacity\<close> subscripts on a record: \<^verbatim>\<open>rack_id\<close> and
  \<^verbatim>\<open>status\<close> always, \<^verbatim>\<open>rack_units\<close> and \<^verbatim>\<open>power_watts\<close> on an online one.
\<close>

definition capacity_fields_present :: "asset \<Rightarrow> bool" where
  "capacity_fields_present a =
     (rack_id a \<noteq> None \<and> status a \<noteq> None \<and>
      (online a \<longrightarrow> rack_units a \<noteq> None \<and> power_watts a \<noteq> None))"

text \<open>
  The fields \<^verbatim>\<open>check_compliance_and_eol\<close> subscripts on a record:
  \<^verbatim>\<open>asset_age_years\<close> and \<^verbatim>\<open>vendor\<close> always, \<^verbatim>\<open>status\<close> once the age or the
  vendor calls for it, \<^verbatim>\<open>asset_id\<close> and \<^verbatim>\<open>rack_id\<close> when the record is flagged.
\<close>

definition compliance_fields_present :: "asset \<Rightarrow> bool" where
  "compliance_fields_present a =
     (asset_age_years a \<noteq> None \<and> vendor a \<noteq> None \<and>
      (EOL_AGE_YEARS \<le> the (asset_age_years a) \<or> the (vendor a) \<in> set CRITICAL_VENDORS
         \<longrightarrow> status a \<noteq> None) \<and>
      (is_eol a \<or> is_vendor_risk a \<longrightarrow> asset_id a \<noteq> None \<and> rack_id a \<noteq> None))"

subsection \<open>One iteration of the aggregation loop, without its checks\<close>

definition rack_zero :: rack_metrics where
  "rack_zero = \<lparr>units_used = 0, power_used_watts = 0\<rparr>"

definition bump :: "asset \<Rightarrow> rack_metrics \<Rightarrow> rack_metrics" where
  "bump a m =
     (if online a
      then \<lparr>units_used = units_used m + the (rack_units a),
            power_used_watts = power_used_watts m + the (power_watts a)\<rparr>
      else m)"

definition add_asset :: "asset \<Rightarrow> racks \<Rightarrow> racks" where
  "add_asset a racks =
     (let rid = the (rack_id a);
          racks1 = (if map_of racks rid = None
                    then AList.update rid \<lparr>units_used = 0, power_used_watts = 0\<rparr> racks
                    else racks)
      in if online a
         then AList.map_entry rid
                (\<lambda>m. m\<lparr>power_used_watts := power_used_watts m + the (power_watts a)\<rparr>)
                (AList.map_entry rid
                   (\<lambda>m. m\<lparr>units_used := units_used m + the (rack_units a)\<rparr>) racks1)
         else racks1)"

fun add_assets :: "asset list \<Rightarrow> racks \<Rightarrow> racks" where
  "add_assets [] racks = racks"
| "add_assets (a # as) racks = add_assets as (add_asset a racks)"

definition racks_power :: "racks \<Rightarrow> rat" where
  "racks_power racks = sum_list (map (\<lambda>p. power_used_watts (snd p)) racks)"

definition shifted :: "rack_metrics \<Rightarrow> string \<Rightarrow> asset list \<Rightarrow> rack_metrics" where
  "shifted m r as =
     \<lparr>units_used = units_used m + units_in_rack r as,
      power_used_watts = power_used_watts m + power_in_rack r as\<rparr>"

subsection \<open>Fields that a run reads and a record lacks\<close>

definition field_names :: "string list" where
  "field_names =
     [''asset_id'', ''rack_id'', ''status'', ''rack_units'', ''power_watts'', ''asset_age_years'',
      ''vendor'']"

text \<open>
  The first field, in the order in which \<^verbatim>\<open>analyze_capacity\<close> subscripts them, that
  the record lacks: \<^verbatim>\<open>rack_id\<close>, \<^verbatim>\<open>status\<close> and, on an online record,
  \<^verbatim>\<open>rack_units\<close> and \<^verbatim>\<open>power_watts\<close>.
\<close>

definition capacity_missing :: "asset \<Rightarrow> string option" where
  "capacity_missing a =
     (if rack_id a = None then Some ''rack_id''
      else if status a = None then Some ''status''
      else if status a \<noteq> Some ''Online'' then None
      else if rack_units a = None then Some ''rack_units''
      else if power_watts a = None then Some ''power_watts''
      else None)"

text \<open>
  The same for \<^verbatim>\<open>check_compliance_and_eol\<close>: the age, then the status once the age
  reaches the threshold, then identifier and rack of a record it flags; after that the
  vendor, the status of a record of a critical vendor, identifier and rack of a record
  it flags.
\<close>

definition flagged_missing :: "asset \<Rightarrow> string option" where
  "flagged_missing a =
     (if asset_id a = None then Some ''asset_id''
      else if rack_id a = None then Some ''rack_id''
      else None)"

definition eol_missing :: "asset \<Rightarrow> string option" where
  "eol_missing a =
     (case asset_age_years a of
        None \<Rightarrow> Some ''asset_age_years''
      | Some age \<Rightarrow>
          if \<not> EOL_AGE_YEARS \<le> age then None
          else if status a = None then Some ''status''
          else if status a = Some ''Decom Pending'' then None
          else flagged_missing a)"

definition vendor_missing :: "asset \<Rightarrow> string option" where
  "vendor_missing a =
     (case vendor a of
        None \<Rightarrow> Some ''vendor''
      | Some v \<Rightarrow>
          if v \<notin> set CRITICAL_VENDORS then None
          else if status a = None then Some ''status''
          else if status a \<noteq> Some ''Online'' then None
          else flagged_missing a)"

definition compliance_missing :: "asset \<Rightarrow> string option" where
  "compliance_missing a =
     (case eol_missing a of Some k \<Rightarrow> Some k | None \<Rightarrow> vendor_missing a)"

text \<open>The first such field over the records of a list, in order.\<close>

fun first_missing :: "(asset \<Rightarrow> string option) \<Rightarrow> asset list \<Rightarrow> string option" where
  "first_missing f [] = None"
| "first_missing f (a # as) = (case f a of Some k \<Rightarrow> Some k | None \<Rightarrow> first_missing f as)"

text \<open>The record with another identifier, where it has one.\<close>

definition relabel :: "(string \<Rightarrow> string) \<Rightarrow> asset \<Rightarrow> asset" where
  "relabel g a = a\<lparr>asset_id := map_option g (asset_id a)\<rparr>"

text \<open>
  The size of the numbers in a list of records. Below \<open>2 ^ 1000\<close> no sum of field
  values leaves the range of a double, so that no conversion of an integer to a
  float can overflow.
\<close>

definition magnitude :: "asset list \<Rightarrow> rat" where
  "magnitude assets =
     sum_list (map (\<lambda>a. (case rack_units a of None \<Rightarrow> 0 | Some u \<Rightarrow> \<bar>of_int u\<bar>) +
                        (case power_watts a of None \<Rightarrow> 0 | Some p \<Rightarrow> \<bar>p\<bar>) +
                        (case asset_age_years a of None \<Rightarrow> 0 | Some g \<Rightarrow> \<bar>g\<bar>)) assets)"

definition within_float_range :: "asset list \<Rightarrow> bool" where
  "within_float_range assets = (magnitude assets < 2 ^ 1000)"

subsection \<open>Sample inputs\<close>

text \<open>A file system that holds the data file alone, and one that holds nothing.\<close>

definition data_file_with :: "asset list \<Rightarrow> string \<Rightarrow> asset list option" where
  "data_file_with content filename = (if filename = DATA_FILE then Some content else None)"

definition no_files :: "string \<Rightarrow> asset list option" where
  "no_files filename = None"

text \<open>The two assets of the specification's scenario.\<close>

definition asset_A1 :: asset where
  "asset_A1 =
     \<lparr>asset_id = Some ''A1'', rack_id = Some ''R1'', status = Some ''Online'',
      rack_units = Some 2, power_watts = Some 500, asset_age_years = Some 6,
      vendor = Some ''HP''\<rparr>"

definition asset_A2 :: asset where
  "asset_A2 =
     \<lparr>asset_id = Some ''A2'', rack_id = Some ''R1'', status = Some ''Offline'',
      rack_units = Some 4, power_watts = Some 1000, asset_age_years = Some 1,
      vendor = Some ''Dell''\<rparr>"

text \<open>An online asset that alone exceeds both limits of its rack.\<close>

definition asset_big :: asset where
  "asset_big =
     \<lparr>asset_id = Some ''B1'', rack_id = Some ''R2'', status = Some ''Online'',
      rack_units = Some 50, power_watts = Some 6000, asset_age_years = Some 2,
      vendor = Some ''Dell''\<rparr>"

text \<open>An old asset of a critical vendor, awaiting decommission, alone in its rack.\<close>

definition asset_decom :: asset where
  "asset_decom =
     \<lparr>asset_id = Some ''D1'', rack_id = Some ''R3'', status = Some ''Decom Pending'',
      rack_units = Some 1, power_watts = Some 100, asset_age_years = Some 10,
      vendor = Some ''HP''\<rparr>"

text \<open>A record without identifier, size and power, which is not online.\<close>

definition asset_partial :: asset where
  "asset_partial =
     \<lparr>asset_id = None, rack_id = Some ''R1'', status = Some ''Offline'',
      rack_units = None, power_watts = None, asset_age_years = Some 1,
      vendor = Some ''Dell''\<rparr>"

text \<open>A record with an identifier and without a rack.\<close>

definition asset_no_rack :: asset where
  "asset_no_rack =
     \<lparr>asset_id = Some ''N1'', rack_id = None, status = Some ''Online'',
      rack_units = Some 1, power_watts = Some 100, asset_age_years = Some 1,
      vendor = Some ''Dell''\<rparr>"

text \<open>
  The metrics of the scenario, and the text of two reports over them: one with an EOL
  candidate and no vendor risk, one with a vendor risk and no EOL candidate.
\<close>

definition sample_metrics :: "capacity_metric list" where
  "sample_metrics =
     [\<lparr>cm_rack_id = ''R1'', cm_units_used = 2, cm_power_used_kva = ''0.50'',
        cm_power_utilization = ''10.0%'', cm_units_utilization = ''4.8%''\<rparr>]"

definition sample_report_head :: string where
  "sample_report_head =
     ''============================================================'' @ newline @
     ''  DCO CAPACITY AND COMPLIANCE REPORT'' @ newline @
     ''  Total Assets Tracked: 2'' @ newline @
     ''  Total Active Power Draw: 0.50 kVA'' @ newline @
     ''============================================================'' @ newline @
     newline @ newline @
     ''--- 1. RACK CAPACITY UTILIZATION (by Rack ID) ---'' @ newline @ newline @
     ''Rack ID   U Used    Power (kVA)    U Util.     Power Util. '' @ newline @
     ''------------------------------------------------------------'' @ newline @
     ''R1        2         0.50           4.8%        10.0%       '' @ newline @
     newline @ newline"

definition sample_report_eol :: string where
  "sample_report_eol =
     sample_report_head @
     ''--- 2. COMPLIANCE & END-OF-LIFE RISKS ---'' @ newline @ newline @
     ''### EOL Assets (Age >= 5.0 Years): 1 Devices Identified'' @ newline @
     ''Asset ID       Rack ID   Age (Yrs) Status         '' @ newline @
     ''--------------------------------------------------'' @ newline @
     ''A1             R1        6.0       EOL Risk       '' @ newline @
     newline @ newline @
     ''### High-Risk Vendors: No active assets from critical vendors identified.'' @ newline @
     newline @ newline @
     ''--- END OF REPORT ---''"

definition sample_report_vendor :: string where
  "sample_report_vendor =
     sample_report_head @
     ''--- 2. COMPLIANCE & END-OF-LIFE RISKS ---'' @ newline @ newline @
     ''### EOL Assets: 0 devices identified. Compliance maintained.'' @ newline @
     newline @ newline @
     ''### High-Risk Vendor Assets (HP, EMC): 1 Devices Identified'' @ newline @
     ''Asset ID       Rack ID   Vendor    Age (Yrs) '' @ newline @
     ''---------------------------------------------'' @ newline @
     ''A1             R1        HP        6.0       '' @ newline @
     newline @ newline @
     ''--- END OF REPORT ---''"

section \<open>The two analyses over an explicit store\<close>

text \<open>
  The definitions above pass values; they cannot say whether a function writes to an
  object it was given. Here the same two functions run over a store of objects. An
  address is an index into the store; a dictionary or list literal allocates the next
  free address; an assignment to a subscript overwrites the object at an address. The
  argument \<^verbatim>\<open>assets\<close> is the address of a list object whose elements are addresses
  of asset dictionaries.

  A run ends in \<open>Raise\<close> with the Python exception, or in \<open>Stuck\<close> when an address
  holds no object of the kind the statement needs, or with a value and the new store.

  A \<^verbatim>\<open>for\<close> loop reads the elements of its list, or the items of its dictionary,
  when it starts, and a loop body reads the rack dictionary of the iteration once;
  the bodies write neither to the list nor to the dictionary they iterate over.
\<close>

datatype obj =
    Asset_dict asset
  | Rack_dict rack_metrics
  | Racks_dict "(string \<times> nat) list"
  | Metric_dict capacity_metric
  | Eol_dict eol_asset
  | Vendor_dict vendor_risk_asset
  | List_obj "nat list"

type_synonym heap = "obj list"

datatype failure = Raise error | Stuck

type_synonym 'a prog = "heap \<Rightarrow> failure + 'a \<times> heap"

definition ret :: "'a \<Rightarrow> 'a prog" where
  "ret x h = Inr (x, h)"

definition seq :: "'a prog \<Rightarrow> ('a \<Rightarrow> 'b prog) \<Rightarrow> 'b prog" where
  "seq m f h = (case m h of Inl e \<Rightarrow> Inl e | Inr (x, h') \<Rightarrow> f x h')"

definition raise :: "error \<Rightarrow> 'a prog" where
  "raise e h = Inl (Raise e)"

definition stuck :: "'a prog" where
  "stuck h = Inl Stuck"

text \<open>A literal: the new object takes the next free address.\<close>

definition new :: "obj \<Rightarrow> nat prog" where
  "new x h = Inr (length h, h @ [x])"

definition load :: "nat \<Rightarrow> obj prog" where
  "load a h = (if a < length h then Inr (h ! a, h) else Inl Stuck)"

definition store :: "nat \<Rightarrow> obj \<Rightarrow> unit prog" where
  "store a x h = (if a < length h then Inr ((), h[a := x]) else Inl Stuck)"

definition read_asset :: "nat \<Rightarrow> asset prog" where
  "read_asset a = seq (load a) (\<lambda>x. case x of Asset_dict v \<Rightarrow> ret v | _ \<Rightarrow> stuck)"

definition read_rack :: "nat \<Rightarrow> rack_metrics prog" where
  "read_rack a = seq (load a) (\<lambda>x. case x of Rack_dict v \<Rightarrow> ret v | _ \<Rightarrow> stuck)"

definition read_racks :: "nat \<Rightarrow> (string \<times> nat) list prog" where
  "read_racks a = seq (load a) (\<lambda>x. case x of Racks_dict v \<Rightarrow> ret v | _ \<Rightarrow> stuck)"

definition read_list :: "nat \<Rightarrow> nat list prog" where
  "read_list a = seq (load a) (\<lambda>x. case x of List_obj v \<Rightarrow> ret v | _ \<Rightarrow> stuck)"

text \<open>\<^verbatim>\<open>asset[name]\<close>, for the asset dictionary at address \<open>a\<close>.\<close>

definition asset_field :: "nat \<Rightarrow> string \<Rightarrow> (asset \<Rightarrow> 'a option) \<Rightarrow> 'a prog" where
  "asset_field a name sel =
     seq (read_asset a) (\<lambda>x. case sel x of None \<Rightarrow> raise (KeyError name) | Some v \<Rightarrow> ret v)"

text \<open>\<^verbatim>\<open>l.append(a)\<close>, for the list object at address \<open>l\<close>.\<close>

definition list_append :: "nat \<Rightarrow> nat \<Rightarrow> unit prog" where
  "list_append l a = seq (read_list l) (\<lambda>xs. store l (List_obj (xs @ [a])))"

text \<open>\<^verbatim>\<open>if rack_id not in racks: racks[rack_id] = {'units_used': 0, 'power_used_watts': 0}\<close>\<close>

definition init_rack :: "nat \<Rightarrow> string \<Rightarrow> unit prog" where
  "init_rack racks rid =
     seq (read_racks racks) (\<lambda>ix.
       if map_of ix rid = None
       then seq (new (Rack_dict \<lparr>units_used = 0, power_used_watts = 0\<rparr>)) (\<lambda>r.
              seq (read_racks racks) (\<lambda>ix1. store racks (Racks_dict (AList.update rid r ix1))))
       else ret ())"

text \<open>
  \<^verbatim>\<open>racks[rack_id][key] += rhs\<close>: the rack dictionary is looked up, then the right-hand
  side is evaluated, then the sum is stored.
\<close>

definition rack_add ::
  "nat \<Rightarrow> string \<Rightarrow> 'v prog \<Rightarrow> ('v \<Rightarrow> rack_metrics \<Rightarrow> rack_metrics) \<Rightarrow> unit prog" where
  "rack_add racks rid rhs f =
     seq (read_racks racks) (\<lambda>ix.
       case map_of ix rid of
         None \<Rightarrow> raise (KeyError rid)
       | Some r \<Rightarrow>
           seq (read_rack r) (\<lambda>m.
             seq rhs (\<lambda>v. store r (Rack_dict (f v m)))))"

subsection \<open>\<^verbatim>\<open>analyze_capacity\<close> over the store\<close>

text \<open>The body of the first loop, for the asset dictionary at address \<open>a\<close>.\<close>

definition aggregate_body_h :: "nat \<Rightarrow> nat \<Rightarrow> unit prog" where
  "aggregate_body_h a racks =
     seq (asset_field a ''rack_id'' rack_id) (\<lambda>rid.
       seq (init_rack racks rid) (\<lambda>_.
         seq (asset_field a ''status'' status) (\<lambda>st.
           if st = ''Online''
           then seq (rack_add racks rid (asset_field a ''rack_units'' rack_units)
                       (\<lambda>u m. m\<lparr>units_used := units_used m + u\<rparr>)) (\<lambda>_.
                  rack_add racks rid (asset_field a ''power_watts'' power_watts)
                    (\<lambda>p m. m\<lparr>power_used_watts := power_used_watts m + p\<rparr>))
           else ret ())))"

fun aggregate_h :: "nat list \<Rightarrow> nat \<Rightarrow> unit prog" where
  "aggregate_h [] racks = ret ()"
| "aggregate_h (a # as) racks =
     seq (aggregate_body_h a racks) (\<lambda>_. aggregate_h as racks)"

fun finalize_h :: "(string \<times> nat) list \<Rightarrow> nat \<Rightarrow> rat \<Rightarrow> rat prog" where
  "finalize_h [] capacity_metrics total_power_used_watts = ret total_power_used_watts"
| "finalize_h ((rid, r) # rest) capacity_metrics total_power_used_watts =
     seq (read_rack r) (\<lambda>metrics.
       seq (new (Metric_dict (rack_metric rid metrics))) (\<lambda>d.
         seq (list_append capacity_metrics d) (\<lambda>_.
           finalize_h rest capacity_metrics
             (total_power_used_watts + power_used_watts metrics))))"

definition analyze_capacity_h :: "nat \<Rightarrow> (nat \<times> nat \<times> rat) prog" where
  "analyze_capacity_h assets =
     seq (read_list assets) (\<lambda>elems.
       seq (new (Racks_dict [])) (\<lambda>racks.
         seq (aggregate_h elems racks) (\<lambda>_.
           seq (new (List_obj [])) (\<lambda>capacity_metrics.
             seq (read_racks racks) (\<lambda>items.
               seq (finalize_h items capacity_metrics 0) (\<lambda>total_power_used_watts.
                 ret (capacity_metrics, length elems, total_power_used_watts)))))))"

subsection \<open>\<^verbatim>\<open>check_compliance_and_eol\<close> over the store\<close>

definition eol_check :: "nat \<Rightarrow> nat \<Rightarrow> unit prog" where
  "eol_check a eol_assets =
     seq (asset_field a ''asset_age_years'' asset_age_years) (\<lambda>age.
       if EOL_AGE_YEARS \<le> age
       then seq (asset_field a ''status'' status) (\<lambda>st.
              if st \<noteq> ''Decom Pending''
              then seq (asset_field a ''asset_id'' asset_id) (\<lambda>i.
                     seq (asset_field a ''rack_id'' rack_id) (\<lambda>r.
                       seq (asset_field a ''asset_age_years'' asset_age_years) (\<lambda>g.
                         seq (new (Eol_dict \<lparr>eol_id = i, eol_rack = r, eol_age = g,
                                             eol_status = ''EOL Risk''\<rparr>)) (\<lambda>d.
                           list_append eol_assets d))))
              else ret ())
       else ret ())"

definition vendor_check :: "nat \<Rightarrow> nat \<Rightarrow> unit prog" where
  "vendor_check a vendor_risk_assets =
     seq (asset_field a ''vendor'' vendor) (\<lambda>v.
       if v \<in> set CRITICAL_VENDORS
       then seq (asset_field a ''status'' status) (\<lambda>st.
              if st = ''Online''
              then seq (asset_field a ''asset_id'' asset_id) (\<lambda>i.
                     seq (asset_field a ''rack_id'' rack_id) (\<lambda>r.
                       seq (asset_field a ''vendor'' vendor) (\<lambda>w.
                         seq (asset_field a ''asset_age_years'' asset_age_years) (\<lambda>g.
                           seq (new (Vendor_dict \<lparr>vr_id = i, vr_rack = r, vr_vendor = w,
                                                  vr_age = g\<rparr>)) (\<lambda>d.
                             list_append vendor_risk_assets d)))))
              else ret ())
       else ret ())"

fun classify_h :: "nat list \<Rightarrow> nat \<Rightarrow> nat \<Rightarrow> unit prog" where
  "classify_h [] eol_assets vendor_risk_assets = ret ()"
| "classify_h (a # as) eol_assets vendor_risk_assets =
     seq (eol_check a eol_assets) (\<lambda>_.
       seq (vendor_check a vendor_risk_assets) (\<lambda>_.
         classify_h as eol_assets vendor_risk_assets))"

definition check_compliance_and_eol_h :: "nat \<Rightarrow> (nat \<times> nat) prog" where
  "check_compliance_and_eol_h assets =
     seq (new (List_obj [])) (\<lambda>eol_assets.
       seq (new (List_obj [])) (\<lambda>vendor_risk_assets.
         seq (read_list assets) (\<lambda>elems.
           seq (classify_h elems eol_assets vendor_risk_assets) (\<lambda>_.
             ret (eol_assets, vendor_risk_assets)))))"

subsection \<open>Reading values back from the store\<close>

definition asset_of :: "obj \<Rightarrow> asset option" where
  "asset_of x = (case x of Asset_dict v \<Rightarrow> Some v | _ \<Rightarrow> None)"

definition metric_of :: "obj \<Rightarrow> capacity_metric option" where
  "metric_of x = (case x of Metric_dict v \<Rightarrow> Some v | _ \<Rightarrow> None)"

definition eol_of :: "obj \<Rightarrow> eol_asset option" where
  "eol_of x = (case x of Eol_dict v \<Rightarrow> Some v | _ \<Rightarrow> None)"

definition vendor_of :: "obj \<Rightarrow> vendor_risk_asset option" where
  "vendor_of x = (case x of Vendor_dict v \<Rightarrow> Some v | _ \<Rightarrow> None)"

definition elems_of :: "heap \<Rightarrow> nat \<Rightarrow> nat list" where
  "elems_of h l = (if l < length h then case h ! l of List_obj xs \<Rightarrow> xs | _ \<Rightarrow> [] else [])"

text \<open>
  The address \<open>l\<close> holds a list whose elements are addresses of objects of the kind
  that \<open>view\<close> recognises.
\<close>

definition list_of_kind :: "(obj \<Rightarrow> 'a option) \<Rightarrow> heap \<Rightarrow> nat \<Rightarrow> bool" where
  "list_of_kind view h l =
     (l < length h \<and> (\<exists>xs. h ! l = List_obj xs \<and> (\<forall>a\<in>set xs. a < length h \<and> view (h ! a) \<noteq> None)))"

text \<open>The values of that list's elements, in order.\<close>

definition values_of :: "(obj \<Rightarrow> 'a option) \<Rightarrow> heap \<Rightarrow> nat \<Rightarrow> 'a list" where
  "values_of view h l = map (\<lambda>a. the (view (h ! a))) (elems_of h l)"

text \<open>
  The three calls of the main block, over the store: the formatter reads the lists and
  the records it is given from the store as the two analyses left it.
\<close>

definition report_h :: "nat \<Rightarrow> string prog" where
  "report_h assets =
     seq (analyze_capacity_h assets) (\<lambda>(capacity_metrics, total_assets, total_power_watts).
       seq (check_compliance_and_eol_h assets) (\<lambda>(eol_assets, vendor_risk_assets) h.
         Inr (generate_report (values_of metric_of h capacity_metrics) total_assets
                total_power_watts (values_of eol_of h eol_assets)
                (values_of vendor_of h vendor_risk_assets), h)))"

subsection \<open>Relating a run over the store to the run over values\<close>

text \<open>The composition of the three functions, over values.\<close>

definition report_of :: "asset list \<Rightarrow> error + string" where
  "report_of assets =
     and_then (analyze_capacity assets) (\<lambda>(capacity_metrics, total_assets, total_power_watts).
       and_then (check_compliance_and_eol assets) (\<lambda>(eol_assets, vendor_risk_assets).
         Inr (generate_report capacity_metrics total_assets total_power_watts eol_assets
                vendor_risk_assets)))"

text \<open>
  A run over the store mirrors a run over values: it raises the same exception, or it
  returns a value and a store that \<open>Q\<close> relates to the value returned over values.
\<close>

definition sim :: "error + 'a \<Rightarrow> failure + 'b \<times> heap \<Rightarrow> ('a \<Rightarrow> 'b \<Rightarrow> heap \<Rightarrow> bool) \<Rightarrow> bool" where
  "sim p c Q =
     (case p of
        Inl e \<Rightarrow> c = Inl (Raise e)
      | Inr x \<Rightarrow> (\<exists>y h'. c = Inr (y, h') \<and> Q x y h'))"

text \<open>The entry of the dictionary \<^verbatim>\<open>racks\<close> in the store stands for the entry over values.\<close>

definition rack_entry :: "heap \<Rightarrow> string \<times> nat \<Rightarrow> string \<times> rack_metrics \<Rightarrow> bool" where
  "rack_entry h e p = (fst e = fst p \<and> snd e < length h \<and> h ! snd e = Rack_dict (snd p))"

text \<open>
  The dictionary at address \<open>racks\<close> stands for \<open>rs\<close>; it and the rack dictionaries are
  at addresses from \<open>n0\<close> on, no two entries share a rack dictionary.
\<close>

definition racks_rep :: "nat \<Rightarrow> heap \<Rightarrow> nat \<Rightarrow> racks \<Rightarrow> bool" where
  "racks_rep n0 h racks rs =
     (n0 \<le> racks \<and> racks < length h \<and>
      (\<exists>ix. h ! racks = Racks_dict ix \<and> distinct (map snd ix) \<and>
            (\<forall>r\<in>snd ` set ix. n0 \<le> r) \<and> list_all2 (rack_entry h) ix rs))"

text \<open>
  The list at address \<open>l\<close> stands for \<open>vs\<close>; it and its elements are at addresses
  from \<open>n0\<close> on.
\<close>

definition list_rep :: "(obj \<Rightarrow> 'a option) \<Rightarrow> nat \<Rightarrow> heap \<Rightarrow> nat \<Rightarrow> 'a list \<Rightarrow> bool" where
  "list_rep view n0 h l vs =
     (n0 \<le> l \<and> l < length h \<and>
      (\<exists>ds. h ! l = List_obj ds \<and> (\<forall>d\<in>set ds. n0 \<le> d \<and> d < length h) \<and>
            map (\<lambda>d. view (h ! d)) ds = map Some vs))"

text \<open>
  The store after a literal \<open>x\<close> is allocated and appended to the list at address \<open>l\<close>.
\<close>

definition push :: "heap \<Rightarrow> nat \<Rightarrow> obj \<Rightarrow> heap" where
  "push h l x = (h @ [x])[l := List_obj (elems_of h l @ [length h])]"

text \<open>The bodies of the loops over values, as the loops over the store have them.\<close>

definition aggregate_body :: "asset \<Rightarrow> racks \<Rightarrow> error + racks" where
  "aggregate_body a racks =
     and_then (subscript ''rack_id'' (rack_id a)) (\<lambda>rid.
       and_then
         (Inr (if map_of racks rid = None
               then AList.update rid \<lparr>units_used = 0, power_used_watts = 0\<rparr> racks
               else racks)) (\<lambda>racks1.
         and_then (subscript ''status'' (status a)) (\<lambda>st.
           if st = ''Online''
           then and_then
                  (and_then (subscript ''rack_units'' (rack_units a)) (\<lambda>u.
                     Inr (AList.map_entry rid (\<lambda>m. m\<lparr>units_used := units_used m + u\<rparr>) racks1)))
                  (\<lambda>racks2.
                     and_then (subscript ''power_watts'' (power_watts a)) (\<lambda>p.
                       Inr (AList.map_entry rid
                              (\<lambda>m. m\<lparr>power_used_watts := power_used_watts m + p\<rparr>) racks2)))
           else Inr racks1)))"

definition eol_step :: "asset \<Rightarrow> eol_asset list \<Rightarrow> error + eol_asset list" where
  "eol_step a eol_assets =
     and_then (subscript ''asset_age_years'' (asset_age_years a)) (\<lambda>age.
       if EOL_AGE_YEARS \<le> age
       then and_then (subscript ''status'' (status a)) (\<lambda>st.
              if st \<noteq> ''Decom Pending''
              then and_then (subscript ''asset_id'' (asset_id a)) (\<lambda>i.
                     and_then (subscript ''rack_id'' (rack_id a)) (\<lambda>r.
                       and_then (subscript ''asset_age_years'' (asset_age_years a)) (\<lambda>g.
                         Inr (eol_assets @
                           [\<lparr>eol_id = i, eol_rack = r, eol_age = g,
                             eol_status = ''EOL Risk''\<rparr>]))))
              else Inr eol_assets)
       else Inr eol_assets)"

definition vendor_step :: "asset \<Rightarrow> vendor_risk_asset list \<Rightarrow> error + vendor_risk_asset list" where
  "vendor_step a vendor_risk_assets =
     and_then (subscript ''vendor'' (vendor a)) (\<lambda>v.
       if v \<in> set CRITICAL_VENDORS
       then and_then (subscript ''status'' (status a)) (\<lambda>st.
              if st = ''Online''
              then and_then (subscript ''asset_id'' (asset_id a)) (\<lambda>i.
                     and_then (subscript ''rack_id'' (rack_id a)) (\<lambda>r.
                       and_then (subscript ''vendor'' (vendor a)) (\<lambda>w.
                         and_then (subscript ''asset_age_years'' (asset_age_years a)) (\<lambda>g.
                           Inr (vendor_risk_assets @
                             [\<lparr>vr_id = i, vr_rack = r, vr_vendor = w, vr_age = g\<rparr>])))))
              else Inr vendor_risk_assets)
       else Inr vendor_risk_assets)"

text \<open>What a run returned, without the store; and the store it left.\<close>

definition value_of :: "failure + 'a \<times> heap \<Rightarrow> failure + 'a" where
  "value_of r = (case r of Inl f \<Rightarrow> Inl f | Inr (x, h) \<Rightarrow> Inr x)"

definition store_after :: "failure + 'a \<times> heap \<Rightarrow> heap" where
  "store_after r = (case r of Inl f \<Rightarrow> [] | Inr (x, h) \<Rightarrow> h)"

text \<open>A store holding the two assets of the scenario and the list of them.\<close>

definition sample_heap :: heap where
  "sample_heap = [Asset_dict asset_A1, Asset_dict asset_A2, List_obj [0, 1]]"

text \<open>The objects that \<^verbatim>\<open>analyze_capacity\<close> allocates when run in a store of three objects.\<close>

definition sample_analyzed :: heap where
  "sample_analyzed =
     [Racks_dict [(''R1'', 4)],
      Rack_dict \<lparr>units_used = 2, power_used_watts = 500\<rparr>,
      List_obj [6],
      Metric_dict
        \<lparr>cm_rack_id = ''R1'', cm_units_used = 2, cm_power_used_kva = ''0.50'',
          cm_power_utilization = ''10.0%'', cm_units_utilization = ''4.8%''\<rparr>]"

text \<open>
  The objects that \<^verbatim>\<open>check_compliance_and_eol\<close> allocates when run in a store of
  \<open>n\<close> objects.
\<close>

definition sample_checked :: "nat \<Rightarrow> heap" where
  "sample_checked n =
     [List_obj [n + 2], List_obj [n + 3],
      Eol_dict \<lparr>eol_id = ''A1'', eol_rack = ''R1'', eol_age = 6, eol_status = ''EOL Risk''\<rparr>,
      Vendor_dict \<lparr>vr_id = ''A1'', vr_rack = ''R1'', vr_vendor = ''HP'', vr_age = 6\<rparr>]"

text \<open>The report of the scenario.\<close>

definition sample_report :: string where
  "sample_report =
     generate_report
       [\<lparr>cm_rack_id = ''R1'', cm_units_used = 2, cm_power_used_kva = ''0.50'',
          cm_power_utilization = ''10.0%'', cm_units_utilization = ''4.8%''\<rparr>] 2 500
       [\<lparr>eol_id = ''A1'', eol_rack = ''R1'', eol_age = 6, eol_status = ''EOL Risk''\<rparr>]
       [\<lparr>vr_id = ''A1'', vr_rack = ''R1'', vr_vendor = ''HP'', vr_age = 6\<rparr>]"

section \<open>Auxiliary facts\<close>

lemma subscript_Some [simp]: "subscript n (Some v) = Inr v"
  by (simp add: subscript_def)

lemma subscript_None [simp]: "subscript n None = Inl (KeyError n)"
  by (simp add: subscript_def)

lemma and_then_Inr [simp]: "and_then (Inr v) f = f v"
  by (simp add: and_then_def)

lemma and_then_Inl [simp]: "and_then (Inl e) f = Inl e"
  by (simp add: and_then_def)

lemma aggregate_step:
  "capacity_fields_present a \<Longrightarrow> aggregate (a # as) racks = aggregate as (add_asset a racks)"
  by (auto simp: capacity_fields_present_def add_asset_def online_def Let_def)

lemma map_entry_keys: "map fst (AList.map_entry k f xs) = map fst xs"
  by (induct xs) auto

lemma add_asset_keys:
  "map fst (add_asset a racks) =
     (if the (rack_id a) \<in> set (map fst racks) then map fst racks
      else map fst racks @ [the (rack_id a)])"
  by (auto simp: add_asset_def Let_def map_entry_keys update_keys map_of_eq_None_iff)

lemma add_asset_distinct:
  "distinct (map fst racks) \<Longrightarrow> distinct (map fst (add_asset a racks))"
  by (simp add: add_asset_keys)

lemma add_asset_map_of:
  "map_of (add_asset a racks) =
     (map_of racks)(the (rack_id a) \<mapsto>
        bump a (case map_of racks (the (rack_id a)) of None \<Rightarrow> rack_zero | Some m \<Rightarrow> m))"
  by (auto simp: add_asset_def Let_def map_of_map_entry update_conv' bump_def rack_zero_def fun_eq_iff)

lemma racks_power_update_new:
  "map_of racks k = None \<Longrightarrow> racks_power (AList.update k v racks) = racks_power racks + power_used_watts v"
  by (induct racks) (auto simp: racks_power_def)

lemma racks_power_map_entry_units:
  "racks_power (AList.map_entry k (\<lambda>m. m\<lparr>units_used := g m\<rparr>) racks) = racks_power racks"
  by (induct racks) (auto simp: racks_power_def)

lemma racks_power_map_entry_power:
  "map_of racks k \<noteq> None \<Longrightarrow>
   racks_power (AList.map_entry k (\<lambda>m. m\<lparr>power_used_watts := power_used_watts m + p\<rparr>) racks) =
   racks_power racks + p"
  by (induct racks) (auto simp: racks_power_def)

lemma add_asset_power:
  "racks_power (add_asset a racks) =
   racks_power racks + (if online a then the (power_watts a) else 0)"
  by (auto simp: add_asset_def Let_def racks_power_update_new racks_power_map_entry_units
      racks_power_map_entry_power map_of_map_entry update_conv')

lemma aggregate_returns:
  "\<forall>a\<in>set as. capacity_fields_present a \<Longrightarrow> aggregate as racks = Inr (add_assets as racks)"
proof (induction as arbitrary: racks)
  case Nil
  show ?case by simp
next
  case (Cons a as)
  then show ?case by (simp add: aggregate_step del: aggregate.simps)
qed

lemma add_assets_keys:
  "map fst (add_assets as racks) =
   map fst racks @
   filter (\<lambda>r. r \<notin> set (map fst racks)) (first_seen (map (\<lambda>a. the (rack_id a)) as))"
proof (induction as arbitrary: racks)
  case Nil
  show ?case by simp
next
  case (Cons a as)
  show ?case
  proof (cases "the (rack_id a) \<in> set (map fst racks)")
    case True
    have "filter (\<lambda>r. r \<notin> set (map fst racks))
            (filter (\<lambda>y. y \<noteq> the (rack_id a)) (first_seen (map (\<lambda>a. the (rack_id a)) as))) =
          filter (\<lambda>r. r \<notin> set (map fst racks)) (first_seen (map (\<lambda>a. the (rack_id a)) as))"
      using True by (auto intro: filter_cong)
    with True show ?thesis
      by (simp add: Cons.IH add_asset_keys)
  next
    case False
    have "filter (\<lambda>r. r \<notin> set (map fst racks))
            (filter (\<lambda>y. y \<noteq> the (rack_id a)) (first_seen (map (\<lambda>a. the (rack_id a)) as))) =
          filter (\<lambda>r. r \<noteq> the (rack_id a) \<and> r \<notin> set (map fst racks))
            (first_seen (map (\<lambda>a. the (rack_id a)) as))"
      by (auto intro: filter_cong)
    with False show ?thesis
      by (simp add: Cons.IH add_asset_keys)
  qed
qed

lemma add_assets_power:
  "racks_power (add_assets as racks) = racks_power racks + online_power as"
  by (induction as arbitrary: racks) (auto simp: add_asset_power online_power_def)

lemma shifted_Cons_other:
  "rack_id a \<noteq> Some r \<Longrightarrow> shifted m r (a # as) = shifted m r as"
  by (simp add: shifted_def units_in_rack_def power_in_rack_def)

lemma shifted_Cons_same:
  "rack_id a = Some r \<Longrightarrow> shifted m r (a # as) = shifted (bump a m) r as"
  by (simp add: shifted_def units_in_rack_def power_in_rack_def bump_def)

lemma add_assets_map_of:
  "\<forall>a\<in>set as. rack_id a \<noteq> None \<Longrightarrow>
   map_of (add_assets as racks) r =
     (case map_of racks r of
        Some m \<Rightarrow> Some (shifted m r as)
      | None \<Rightarrow> if r \<in> (\<lambda>a. the (rack_id a)) ` set as then Some (shifted rack_zero r as) else None)"
proof (induction as arbitrary: racks)
  case Nil
  show ?case by (simp add: shifted_def units_in_rack_def power_in_rack_def split: option.splits)
next
  case (Cons a as)
  then obtain q where q: "rack_id a = Some q" by auto
  show ?case
  proof (cases "q = r")
    case True
    with q Cons show ?thesis
      by (simp add: add_asset_map_of shifted_Cons_same split: option.splits)
  next
    case False
    with q Cons show ?thesis
      by (auto simp add: add_asset_map_of shifted_Cons_other split: option.splits)
  qed
qed

lemma set_first_seen [simp]: "set (first_seen xs) = set xs"
  by (induction xs) auto

lemma first_seen_snoc:
  "first_seen (xs @ [x]) = (if x \<in> set xs then first_seen xs else first_seen xs @ [x])"
  by (induction xs) auto

lemma distinct_first_seen [simp]: "distinct (first_seen xs)"
  by (induction xs) auto

lemma alist_from_keys:
  "distinct (map fst rs) \<Longrightarrow> map (\<lambda>k. (k, the (map_of rs k))) (map fst rs) = rs"
proof (induction rs)
  case Nil
  show ?case by simp
next
  case (Cons p rs)
  have "map (\<lambda>k. (k, the (map_of (p # rs) k))) (map fst rs) =
        map (\<lambda>k. (k, the (map_of rs k))) (map fst rs)"
    using Cons.prems by (intro map_cong) (auto simp: image_iff)
  with Cons show ?case by (cases p) simp
qed

lemma finalize_eq:
  "finalize racks cm tot =
   (cm @ map (\<lambda>p. rack_metric (fst p) (snd p)) racks, tot + racks_power racks)"
  by (induction racks cm tot rule: finalize.induct) (auto simp: racks_power_def)

lemma add_assets_empty:
  assumes "\<forall>a\<in>set as. rack_id a \<noteq> None"
  shows "add_assets as [] =
         map (\<lambda>r. (r, rack_total r as)) (first_seen (map (\<lambda>a. the (rack_id a)) as))"
proof -
  let ?rs = "add_assets as []"
  let ?ks = "first_seen (map (\<lambda>a. the (rack_id a)) as)"
  have keys: "map fst ?rs = ?ks"
    by (simp add: add_assets_keys)
  then have "distinct (map fst ?rs)" by simp
  then have "?rs = map (\<lambda>k. (k, the (map_of ?rs k))) ?ks"
    using alist_from_keys [of ?rs] keys by simp
  also have "\<dots> = map (\<lambda>r. (r, rack_total r as)) ?ks"
    using assms
    by (intro map_cong) (auto simp: add_assets_map_of shifted_def rack_zero_def rack_total_def)
  finally show ?thesis .
qed

lemma capacity_fields_rack_id: "capacity_fields_present a \<Longrightarrow> rack_id a \<noteq> None"
  by (simp add: capacity_fields_present_def)

lemma analyze_capacity_returns:
  assumes "\<forall>a\<in>set assets. capacity_fields_present a"
  shows "analyze_capacity assets =
         Inr (map (\<lambda>r. rack_metric r (rack_total r assets))
                (first_seen (map (\<lambda>a. the (rack_id a)) assets)),
              length assets, online_power assets)"
proof -
  have rid: "\<forall>a\<in>set assets. rack_id a \<noteq> None"
    using assms by (simp add: capacity_fields_rack_id)
  have pow: "racks_power (add_assets assets []) = online_power assets"
    using add_assets_power [of assets "[]"] by (simp add: racks_power_def)
  have fin: "finalize (add_assets assets []) [] 0 =
             (map (\<lambda>p. rack_metric (fst p) (snd p)) (add_assets assets []), online_power assets)"
    by (simp only: finalize_eq pow) simp
  have "map (\<lambda>p. rack_metric (fst p) (snd p)) (add_assets assets []) =
        map (\<lambda>r. rack_metric r (rack_total r assets))
          (first_seen (map (\<lambda>a. the (rack_id a)) assets))"
    by (simp add: add_assets_empty [OF rid] o_def)
  with fin show ?thesis
    unfolding analyze_capacity_def
    by (simp add: aggregate_returns [OF assms])
qed

lemma classify_step:
  "compliance_fields_present a \<Longrightarrow>
   classify (a # as) e v =
   classify as (e @ (if is_eol a then [eol_entry a] else []))
     (v @ (if is_vendor_risk a then [vendor_entry a] else []))"
  by (cases "asset_age_years a"; cases "vendor a"; cases "status a"; cases "asset_id a";
      cases "rack_id a")
     (auto simp: compliance_fields_present_def is_eol_def is_vendor_risk_def eol_entry_def
        vendor_entry_def)

lemma classify_returns:
  "\<forall>a\<in>set as. compliance_fields_present a \<Longrightarrow>
   classify as e v =
   Inr (e @ map eol_entry (filter is_eol as), v @ map vendor_entry (filter is_vendor_risk as))"
proof (induction as arbitrary: e v)
  case Nil
  show ?case by simp
next
  case (Cons a as)
  then show ?case by (simp add: classify_step del: classify.simps)
qed

lemma format_fixed_1_zero: "format_fixed 1 0 = ''0.0''"
  by code_simp

lemma format_fixed_2_zero: "format_fixed 2 0 = ''0.00''"
  by code_simp

lemma rack_metric_zero:
  "rack_metric r rack_zero =
     \<lparr>cm_rack_id = r, cm_units_used = 0, cm_power_used_kva = ''0.00'',
      cm_power_utilization = ''0.0%'', cm_units_utilization = ''0.0%''\<rparr>"
  by (simp add: rack_metric_def rack_zero_def units_utilization_of_def power_utilization_of_def
      power_used_kva_of_def format_fixed_1_zero format_fixed_2_zero del: One_nat_def)

lemma check_compliance_returns:
  assumes "\<forall>a\<in>set assets. compliance_fields_present a"
  shows "check_compliance_and_eol assets =
         Inr (map eol_entry (filter is_eol assets), map vendor_entry (filter is_vendor_risk assets))"
  using classify_returns [OF assms, of "[]" "[]"]
  by (simp add: check_compliance_and_eol_def)

lemma eol_columns:
  "ljust 15 ''Asset ID'' @ ljust 10 ''Rack ID'' @ ljust 10 ''Age (Yrs)'' @ ljust 15 ''Status'' =
   ''Asset ID       Rack ID   Age (Yrs) Status         ''"
  by code_simp

lemma vendor_columns:
  "ljust 15 ''Asset ID'' @ ljust 10 ''Rack ID'' @ ljust 10 ''Vendor'' @ ljust 10 ''Age (Yrs)'' =
   ''Asset ID       Rack ID   Vendor    Age (Yrs) ''"
  by code_simp

lemma critical_vendors_joined: "join '', '' CRITICAL_VENDORS = ''HP, EMC''"
  by code_simp

lemma capacity_missing_None: "capacity_missing a = None \<longleftrightarrow> capacity_fields_present a"
  by (auto simp: capacity_missing_def capacity_fields_present_def online_def)

lemma compliance_missing_None: "compliance_missing a = None \<longleftrightarrow> compliance_fields_present a"
  by (cases "asset_age_years a"; cases "vendor a"; cases "status a"; cases "asset_id a";
      cases "rack_id a")
     (auto simp: compliance_missing_def eol_missing_def vendor_missing_def flagged_missing_def
        compliance_fields_present_def is_eol_def is_vendor_risk_def)

lemma capacity_missing_here:
  "capacity_missing a = Some k \<Longrightarrow> aggregate (a # as) racks = Inl (KeyError k)"
  by (cases "rack_id a"; cases "status a"; cases "rack_units a"; cases "power_watts a")
     (auto simp: capacity_missing_def Let_def split: if_splits)

lemma compliance_missing_here:
  "compliance_missing a = Some k \<Longrightarrow> classify (a # as) e v = Inl (KeyError k)"
  by (cases "asset_age_years a"; cases "vendor a"; cases "status a"; cases "asset_id a";
      cases "rack_id a")
     (auto simp: compliance_missing_def eol_missing_def vendor_missing_def flagged_missing_def
        split: if_splits)

lemma first_missing_None: "first_missing f as = None \<longleftrightarrow> (\<forall>a\<in>set as. f a = None)"
  by (induction as) (auto split: option.splits)

lemma first_missing_Some:
  "first_missing f as = Some k \<Longrightarrow> \<exists>a\<in>set as. f a = Some k"
  by (induction as) (auto split: option.splits)

lemma aggregate_first_missing:
  "first_missing capacity_missing as = Some k \<Longrightarrow> aggregate as racks = Inl (KeyError k)"
proof (induction as arbitrary: racks)
  case Nil
  then show ?case by simp
next
  case (Cons a as)
  show ?case
  proof (cases "capacity_missing a")
    case None
    with Cons.prems have "first_missing capacity_missing as = Some k" by simp
    from Cons.IH [OF this] None show ?thesis
      by (simp add: aggregate_step capacity_missing_None del: aggregate.simps)
  next
    case (Some j)
    with Cons.prems have "j = k" by simp
    with Some show ?thesis by (simp add: capacity_missing_here del: aggregate.simps)
  qed
qed

lemma classify_first_missing:
  "first_missing compliance_missing as = Some k \<Longrightarrow> classify as e v = Inl (KeyError k)"
proof (induction as arbitrary: e v)
  case Nil
  then show ?case by simp
next
  case (Cons a as)
  show ?case
  proof (cases "compliance_missing a")
    case None
    with Cons.prems have "first_missing compliance_missing as = Some k" by simp
    from Cons.IH [OF this] None show ?thesis
      by (simp add: classify_step compliance_missing_None del: classify.simps)
  next
    case (Some j)
    with Cons.prems have "j = k" by simp
    with Some show ?thesis by (simp add: compliance_missing_here del: classify.simps)
  qed
qed

lemma missing_is_field:
  "capacity_missing a = Some k \<or> compliance_missing a = Some k \<Longrightarrow>
   k \<in> set field_names \<and> \<not> has_field k a"
  by (cases "asset_age_years a"; cases "vendor a")
     (auto simp: capacity_missing_def compliance_missing_def eol_missing_def vendor_missing_def
        flagged_missing_def field_names_def has_field_def split: if_splits)

lemma capacity_missing_relabel: "capacity_missing (relabel g a) = capacity_missing a"
  by (simp add: capacity_missing_def relabel_def)

lemma flagged_missing_relabel: "flagged_missing (relabel g a) = flagged_missing a"
  by (simp add: flagged_missing_def relabel_def)

lemma relabel_fields [simp]:
  "rack_id (relabel g a) = rack_id a" "status (relabel g a) = status a"
  "rack_units (relabel g a) = rack_units a" "power_watts (relabel g a) = power_watts a"
  "asset_age_years (relabel g a) = asset_age_years a" "vendor (relabel g a) = vendor a"
  by (simp_all add: relabel_def)

lemma eol_missing_relabel: "eol_missing (relabel g a) = eol_missing a"
  by (simp add: eol_missing_def flagged_missing_relabel cong: if_cong option.case_cong)

lemma vendor_missing_relabel: "vendor_missing (relabel g a) = vendor_missing a"
  by (simp add: vendor_missing_def flagged_missing_relabel cong: if_cong option.case_cong)

lemma compliance_missing_relabel: "compliance_missing (relabel g a) = compliance_missing a"
  by (simp add: compliance_missing_def eol_missing_relabel vendor_missing_relabel
      cong: option.case_cong)

lemma first_missing_map:
  "(\<And>a. f (h a) = f a) \<Longrightarrow> first_missing f (map h as) = first_missing f as"
  by (induction as) (auto split: option.splits)

lemma within_float_rangeI: "magnitude assets < 2 ^ 10 \<Longrightarrow> within_float_range assets"
proof -
  assume "magnitude assets < 2 ^ 10"
  also have "(2::rat) ^ 10 \<le> 2 ^ 1000"
    by (rule power_increasing) simp_all
  finally show ?thesis by (simp only: within_float_range_def)
qed

lemma main_block_capacity_missing:
  assumes "fs DATA_FILE = Some assets" and "first_missing capacity_missing assets = Some k"
  shows "main_block fs = \<lparr>printed = [], raised = Some (KeyError k)\<rparr>"
proof -
  from assms(2) have "assets \<noteq> []" by auto
  with assms aggregate_first_missing [OF assms(2), of "[]"] show ?thesis
    by (simp add: main_block_def load_data_def analyze_capacity_def)
qed

lemma main_block_compliance_missing:
  assumes "fs DATA_FILE = Some assets" and "first_missing capacity_missing assets = None"
    and "first_missing compliance_missing assets = Some k"
  shows "main_block fs = \<lparr>printed = [], raised = Some (KeyError k)\<rparr>"
proof -
  from assms(3) have ne: "assets \<noteq> []" by auto
  from assms(2) have cap: "\<forall>a\<in>set assets. capacity_fields_present a"
    by (simp add: first_missing_None capacity_missing_None)
  from classify_first_missing [OF assms(3), of "[]" "[]"]
  have "check_compliance_and_eol assets = Inl (KeyError k)"
    by (simp add: check_compliance_and_eol_def)
  with ne assms(1) show ?thesis
    by (simp add: main_block_def load_data_def analyze_capacity_returns [OF cap])
qed

lemma main_block_nothing_missing:
  assumes "fs DATA_FILE = Some assets" and "assets \<noteq> []"
    and "first_missing capacity_missing assets = None"
    and "first_missing compliance_missing assets = None"
  shows "\<exists>report. main_block fs = \<lparr>printed = [report], raised = None\<rparr>"
proof -
  from assms(3) have cap: "\<forall>a\<in>set assets. capacity_fields_present a"
    by (simp add: first_missing_None capacity_missing_None)
  from assms(4) have com: "\<forall>a\<in>set assets. compliance_fields_present a"
    by (simp add: first_missing_None compliance_missing_None)
  from assms(1,2) show ?thesis
    by (simp add: main_block_def load_data_def analyze_capacity_returns [OF cap]
        check_compliance_returns [OF com])
qed

lemma main_block_raised:
  assumes "fs DATA_FILE = Some assets" and "assets \<noteq> []"
  shows "raised (main_block fs) =
         (case first_missing capacity_missing assets of
            Some k \<Rightarrow> Some (KeyError k)
          | None \<Rightarrow> map_option KeyError (first_missing compliance_missing assets))"
proof (cases "first_missing capacity_missing assets")
  case (Some k)
  with main_block_capacity_missing [of fs, OF assms(1) Some] show ?thesis by simp
next
  case None
  show ?thesis
  proof (cases "first_missing compliance_missing assets")
    case (Some k)
    with None main_block_compliance_missing [of fs, OF assms(1) None Some] show ?thesis by simp
  next
    case n: None
    from main_block_nothing_missing [of fs, OF assms None n] None n show ?thesis by auto
  qed
qed

lemma join_Cons: "join sep (x # xs) = x @ concat (map (\<lambda>l. sep @ l) xs)"
  by (induction xs arbitrary: x) auto

lemma join_report:
  "join sep ((l # ls @ [a, b @ sep]) @ es @ [c] @ vs @ [d, e]) =
     (l @ concat (map (\<lambda>l. sep @ l) ls) @ sep @ a @ sep) @ b @ sep @
     concat (map (\<lambda>l. sep @ l) es) @ sep @ c @
     concat (map (\<lambda>l. sep @ l) vs) @ sep @ d @ sep @ e"
  by (simp add: join_Cons)

lemma section_text:
  "concat (map (\<lambda>l. sep @ l) ([h, c, r] @ map f xs)) =
     sep @ h @ sep @ c @ sep @ r @ concat (map (\<lambda>x. sep @ f x) xs)"
  by (simp add: o_def)

lemma eol_section_text:
  "concat (map (\<lambda>l. newline @ l) (eol_section eol)) =
     newline @
     (if eol = []
      then ''### EOL Assets: 0 devices identified. Compliance maintained.''
      else (''### EOL Assets (Age >= 5.0 Years): '' @ show_nat (length eol) @
               '' Devices Identified'') @ newline @
           ''Asset ID       Rack ID   Age (Yrs) Status         '' @ newline @
           replicate 50 CHR ''-'' @
           concat (map (\<lambda>asset. newline @ eol_row asset) eol))"
proof (cases "eol = []")
  case True
  then show ?thesis by (simp add: eol_section_def)
next
  case False
  have "eol_section eol =
      [''### EOL Assets (Age >= 5.0 Years): '' @ show_nat (length eol) @ '' Devices Identified'',
       ''Asset ID       Rack ID   Age (Yrs) Status         '',
       replicate 50 CHR ''-''] @ map eol_row eol"
    using False by (simp add: eol_section_def eol_columns EOL_AGE_YEARS_text_def)
  then show ?thesis
    using False by (simp only: section_text if_False)
qed

lemma vendor_section_text:
  "concat (map (\<lambda>l. newline @ l) (vendor_section vr)) =
     newline @
     (if vr = []
      then ''### High-Risk Vendors: No active assets from critical vendors identified.''
      else (''### High-Risk Vendor Assets (HP, EMC): '' @ show_nat (length vr) @
               '' Devices Identified'') @ newline @
           ''Asset ID       Rack ID   Vendor    Age (Yrs) '' @ newline @
           replicate 45 CHR ''-'' @
           concat (map (\<lambda>asset. newline @ vendor_row asset) vr))"
proof (cases "vr = []")
  case True
  then show ?thesis by (simp add: vendor_section_def)
next
  case False
  have "vendor_section vr =
      [''### High-Risk Vendor Assets (HP, EMC): '' @ show_nat (length vr) @ '' Devices Identified'',
       ''Asset ID       Rack ID   Vendor    Age (Yrs) '',
       replicate 45 CHR ''-''] @ map vendor_row vr"
    using False by (simp add: vendor_section_def vendor_columns critical_vendors_joined)
  then show ?thesis
    using False by (simp only: section_text if_False)
qed

lemma report_head_shape:
  "\<exists>l ls. report_head cm ta tp =
     l # ls @ [newline, ''--- 2. COMPLIANCE & END-OF-LIFE RISKS ---'' @ newline]"
  by (simp add: report_head_def)

subsection \<open>Runs over the store\<close>

lemma seq_Inr: "m h = Inr (x, h1) \<Longrightarrow> seq m f h = f x h1"
  by (simp add: seq_def)

lemma seq_Inl: "m h = Inl e \<Longrightarrow> seq m f h = Inl e"
  by (simp add: seq_def)

lemma sim_bind:
  assumes "sim p (m h) Q" and "\<And>x y h1. Q x y h1 \<Longrightarrow> sim (f x) (g y h1) Q'"
  shows "sim (and_then p f) (seq m g h) Q'"
proof (cases p)
  case (Inl e)
  with assms(1) show ?thesis
    by (simp add: sim_def and_then_def seq_def)
next
  case (Inr x)
  with assms(1) obtain y h1 where run: "m h = Inr (y, h1)" and q: "Q x y h1"
    by (auto simp: sim_def)
  from assms(2) [OF q] Inr run show ?thesis
    by (simp add: and_then_def seq_def)
qed

lemma read_rack_at: "a < length h \<Longrightarrow> h ! a = Rack_dict v \<Longrightarrow> read_rack a h = Inr (v, h)"
  by (simp add: read_rack_def seq_def load_def ret_def)

lemma read_racks_at: "a < length h \<Longrightarrow> h ! a = Racks_dict v \<Longrightarrow> read_racks a h = Inr (v, h)"
  by (simp add: read_racks_def seq_def load_def ret_def)

lemma read_list_at: "a < length h \<Longrightarrow> h ! a = List_obj v \<Longrightarrow> read_list a h = Inr (v, h)"
  by (simp add: read_list_def seq_def load_def ret_def)

lemma seq_read_rack:
  "a < length h \<Longrightarrow> h ! a = Rack_dict v \<Longrightarrow> seq (read_rack a) f h = f v h"
  by (simp add: seq_Inr [OF read_rack_at])

lemma seq_read_racks:
  "a < length h \<Longrightarrow> h ! a = Racks_dict v \<Longrightarrow> seq (read_racks a) f h = f v h"
  by (simp add: seq_Inr [OF read_racks_at])

lemma seq_read_list:
  "a < length h \<Longrightarrow> h ! a = List_obj v \<Longrightarrow> seq (read_list a) f h = f v h"
  by (simp add: seq_Inr [OF read_list_at])

lemma seq_new: "seq (new x) f h = f (length h) (h @ [x])"
  by (simp add: seq_def new_def)

lemma store_at: "a < length h \<Longrightarrow> store a x h = Inr ((), h[a := x])"
  by (simp add: store_def)

lemma list_append_at:
  "l < length h \<Longrightarrow> h ! l = List_obj xs \<Longrightarrow>
   list_append l a h = Inr ((), h[l := List_obj (xs @ [a])])"
  by (simp add: list_append_def seq_Inr [OF read_list_at] store_at)

lemma sim_field:
  "a < length h \<Longrightarrow> h ! a = Asset_dict v \<Longrightarrow>
   sim (subscript n (sel v)) (asset_field a n sel h) (\<lambda>x y h1. y = x \<and> h1 = h)"
  by (cases "sel v")
     (simp_all add: sim_def asset_field_def read_asset_def seq_def load_def ret_def raise_def)

lemma aggregate_Cons: "aggregate (a # as) racks = and_then (aggregate_body a racks) (aggregate as)"
  by (cases "rack_id a"; cases "status a"; cases "rack_units a"; cases "power_watts a")
     (simp_all add: aggregate_body_def Let_def)

lemma classify_Cons:
  "classify (a # as) e v =
   and_then (eol_step a e) (\<lambda>e1. and_then (vendor_step a v) (\<lambda>v1. classify as e1 v1))"
  by (simp add: eol_step_def vendor_step_def)

lemma rack_entry_map_of_None:
  "list_all2 (rack_entry h) ix rs \<Longrightarrow> (map_of ix k = None) = (map_of rs k = None)"
  by (induction rule: list_all2_induct) (auto simp: rack_entry_def)

lemma rack_entry_map_of_Some:
  "list_all2 (rack_entry h) ix rs \<Longrightarrow> map_of ix k = Some r \<Longrightarrow>
   \<exists>m. map_of rs k = Some m \<and> r < length h \<and> h ! r = Rack_dict m"
  by (induction rule: list_all2_induct) (auto simp: rack_entry_def split: if_splits)

lemma update_absent: "map_of xs k = None \<Longrightarrow> AList.update k v xs = xs @ [(k, v)]"
  by (induction xs) (auto split: if_splits)

lemma rack_entry_in_range:
  "list_all2 (rack_entry h) ix rs \<Longrightarrow> e \<in> set ix \<Longrightarrow>
   snd e < length h \<and> (\<exists>m. h ! snd e = Rack_dict m)"
  by (induction rule: list_all2_induct) (auto simp: rack_entry_def)

lemma rack_entry_stable:
  assumes "list_all2 (rack_entry h) ix rs" and "length h \<le> length h1"
    and "\<And>r. r \<in> snd ` set ix \<Longrightarrow> h1 ! r = h ! r"
  shows "list_all2 (rack_entry h1) ix rs"
  using assms(1)
proof (rule list.rel_mono_strong)
  fix e p
  assume "e \<in> set ix" and "rack_entry h e p"
  with assms(2) assms(3) [of "snd e"] show "rack_entry h1 e p"
    by (auto simp: rack_entry_def)
qed

lemma rack_entry_map_entry:
  "list_all2 (rack_entry h) ix rs \<Longrightarrow> distinct (map snd ix) \<Longrightarrow> map_of ix k = Some r \<Longrightarrow>
   list_all2 (rack_entry (h[r := Rack_dict (f (the (map_of rs k)))])) ix (AList.map_entry k f rs)"
proof (induction rule: list_all2_induct)
  case Nil
  then show ?case by simp
next
  case (Cons e ix p rs)
  show ?case
  proof (cases "fst e = k")
    case True
    with Cons.prems have r: "r = snd e" by (cases e) simp
    from True Cons.hyps have kp: "fst p = k" by (simp add: rack_entry_def)
    have "list_all2 (rack_entry (h[r := Rack_dict (f (snd p))])) ix rs"
      using Cons.hyps(2)
    proof (rule rack_entry_stable)
      show "length h \<le> length (h[r := Rack_dict (f (snd p))])" by simp
    next
      fix q assume "q \<in> snd ` set ix"
      then have "q \<in> set (map snd ix)" by simp
      moreover from Cons.prems(1) r have "r \<notin> set (map snd ix)" by simp
      ultimately have "q \<noteq> r" by blast
      then show "h[r := Rack_dict (f (snd p))] ! q = h ! q" by simp
    qed
    moreover have "rack_entry (h[r := Rack_dict (f (snd p))]) e (k, f (snd p))"
      using True r Cons.hyps(1) by (simp add: rack_entry_def)
    moreover have "AList.map_entry k f (p # rs) = (k, f (snd p)) # rs"
      using kp by simp
    moreover have "the (map_of (p # rs) k) = snd p"
      using kp by (cases p) simp
    ultimately show ?thesis by simp
  next
    case False
    with Cons.prems have tail: "map_of ix k = Some r" by (cases e) (simp split: if_splits)
    then have "r \<in> snd ` set ix" by (force dest: map_of_SomeD)
    with Cons.prems(1) have ne: "snd e \<noteq> r" by auto
    from False Cons.hyps have kp: "fst p \<noteq> k" by (simp add: rack_entry_def)
    from Cons.prems(1) have "distinct (map snd ix)" by simp
    from Cons.IH [OF this tail]
    have "list_all2 (rack_entry (h[r := Rack_dict (f (the (map_of rs k)))])) ix
            (AList.map_entry k f rs)" .
    moreover have "rack_entry (h[r := Rack_dict (f (the (map_of rs k)))]) e p"
      using ne Cons.hyps(1) by (simp add: rack_entry_def)
    moreover have "AList.map_entry k f (p # rs) = p # AList.map_entry k f rs"
      using kp by simp
    moreover have "the (map_of (p # rs) k) = the (map_of rs k)"
      using kp by (cases p) simp
    ultimately show ?thesis by simp
  qed
qed

lemma same_prefix_nth: "take n h1 = take n h \<Longrightarrow> a < n \<Longrightarrow> h1 ! a = h ! a"
  by (metis nth_take)

lemma init_rack_sim:
  assumes "racks_rep n0 h racks rs"
  shows "sim (Inr (if map_of rs rid = None
                   then AList.update rid \<lparr>units_used = 0, power_used_watts = 0\<rparr> rs
                   else rs))
           (init_rack racks rid h)
           (\<lambda>rs1 _ h1. racks_rep n0 h1 racks rs1 \<and> take n0 h1 = take n0 h)"
proof -
  from assms obtain ix where lo: "n0 \<le> racks" and hi: "racks < length h"
    and ix: "h ! racks = Racks_dict ix" and dist: "distinct (map snd ix)"
    and fresh: "\<forall>r\<in>snd ` set ix. n0 \<le> r" and rel: "list_all2 (rack_entry h) ix rs"
    by (auto simp: racks_rep_def)
  show ?thesis
  proof (cases "map_of rs rid = None")
    case False
    with rel have "map_of ix rid \<noteq> None" by (simp add: rack_entry_map_of_None)
    then obtain r where r: "map_of ix rid = Some r" by auto
    from False obtain m where m: "map_of rs rid = Some m" by auto
    have "init_rack racks rid h = Inr ((), h)"
      by (simp add: init_rack_def seq_read_racks [OF hi ix] r ret_def)
    with assms show ?thesis
      by (simp add: m sim_def)
  next
    case True
    with rel have none: "map_of ix rid = None" by (simp add: rack_entry_map_of_None)
    let ?z = "\<lparr>units_used = 0, power_used_watts = 0\<rparr>"
    let ?h1 = "h @ [Rack_dict ?z]"
    let ?h2 = "?h1[racks := Racks_dict (ix @ [(rid, length h)])]"
    have at1: "racks < length ?h1" "?h1 ! racks = Racks_dict ix"
      using hi ix by (simp_all add: nth_append)
    have run: "init_rack racks rid h = Inr ((), ?h2)"
      using none
      by (simp add: init_rack_def seq_read_racks [OF hi ix] seq_new seq_read_racks [OF at1]
          store_at [OF at1(1)] update_absent)
    have inrange: "\<forall>r\<in>snd ` set ix. r < length h \<and> r \<noteq> racks"
    proof
      fix r assume "r \<in> snd ` set ix"
      then obtain k where "(k, r) \<in> set ix" by auto
      from rack_entry_in_range [OF rel this] ix
      show "r < length h \<and> r \<noteq> racks" by auto
    qed
    have old: "list_all2 (rack_entry ?h2) ix rs"
      using rel
    proof (rule rack_entry_stable)
      show "length h \<le> length ?h2" by simp
    next
      fix r assume "r \<in> snd ` set ix"
      with inrange have "r < length h" "r \<noteq> racks" by auto
      then show "?h2 ! r = h ! r" by (simp add: nth_append)
    qed
    have new: "rack_entry ?h2 (rid, length h) (rid, ?z)"
      using hi by (simp add: rack_entry_def)
    have rel2: "list_all2 (rack_entry ?h2) (ix @ [(rid, length h)]) (rs @ [(rid, ?z)])"
      using old new by (simp add: list_all2_appendI)
    have dist2: "distinct (map snd (ix @ [(rid, length h)]))"
      using dist inrange by auto
    have fresh2: "\<forall>r\<in>snd ` set (ix @ [(rid, length h)]). n0 \<le> r"
      using fresh lo hi by auto
    have "racks_rep n0 ?h2 racks (rs @ [(rid, ?z)])"
      unfolding racks_rep_def using lo hi rel2 dist2 fresh2
      by (intro conjI exI [of _ "ix @ [(rid, length h)]"]) simp_all
    moreover have "take n0 ?h2 = take n0 h"
      using lo hi by simp
    ultimately show ?thesis
      using True run by (simp add: sim_def update_absent)
  qed
qed

lemma rack_add_sim:
  assumes rep: "racks_rep n0 h racks rs" and key: "map_of rs rid \<noteq> None"
    and rhs: "sim p (rhs h) (\<lambda>x y h1. y = x \<and> h1 = h)"
  shows "sim (and_then p (\<lambda>v. Inr (AList.map_entry rid (f v) rs)))
           (rack_add racks rid rhs f h)
           (\<lambda>rs1 _ h1. racks_rep n0 h1 racks rs1 \<and> take n0 h1 = take n0 h)"
proof -
  from rep obtain ix where lo: "n0 \<le> racks" and hi: "racks < length h"
    and ix: "h ! racks = Racks_dict ix" and dist: "distinct (map snd ix)"
    and fresh: "\<forall>r\<in>snd ` set ix. n0 \<le> r" and rel: "list_all2 (rack_entry h) ix rs"
    by (auto simp: racks_rep_def)
  from key rel have "map_of ix rid \<noteq> None" by (simp add: rack_entry_map_of_None)
  then obtain r where r: "map_of ix rid = Some r" by auto
  from rack_entry_map_of_Some [OF rel r] obtain m
    where m: "map_of rs rid = Some m" and rlen: "r < length h" and rat: "h ! r = Rack_dict m"
    by blast
  from r have rin: "r \<in> snd ` set ix" by (force dest: map_of_SomeD)
  with fresh have rlo: "n0 \<le> r" by blast
  from rat ix have rne: "r \<noteq> racks" by auto
  have run: "rack_add racks rid rhs f h = seq rhs (\<lambda>v. store r (Rack_dict (f v m))) h"
    by (simp add: rack_add_def seq_read_racks [OF hi ix] r seq_read_rack [OF rlen rat])
  show ?thesis
  proof (cases p)
    case (Inl e)
    with rhs have "rhs h = Inl (Raise e)" by (simp add: sim_def)
    with Inl run show ?thesis by (simp add: sim_def seq_def)
  next
    case (Inr v)
    with rhs have "rhs h = Inr (v, h)" by (simp add: sim_def)
    with run rlen have res: "rack_add racks rid rhs f h = Inr ((), h[r := Rack_dict (f v m)])"
      by (simp add: seq_def store_def)
    let ?h1 = "h[r := Rack_dict (f v m)]"
    from rack_entry_map_entry [OF rel dist r, of "f v"] m
    have rel1: "list_all2 (rack_entry ?h1) ix (AList.map_entry rid (f v) rs)" by simp
    have "racks_rep n0 ?h1 racks (AList.map_entry rid (f v) rs)"
      unfolding racks_rep_def using lo hi ix rne dist fresh rel1
      by (intro conjI exI [of _ ix]) simp_all
    moreover have "take n0 ?h1 = take n0 h"
      using rlo by simp
    ultimately show ?thesis
      using Inr res by (simp add: sim_def)
  qed
qed

lemma rack_add_field_sim:
  assumes rep: "racks_rep n0 h racks rs" and key: "map_of rs rid \<noteq> None"
    and a: "a < length h" and v: "h ! a = Asset_dict v"
  shows "sim (and_then (subscript n (sel v)) (\<lambda>x. Inr (AList.map_entry rid (f x) rs)))
           (rack_add racks rid (asset_field a n sel) f h)
           (\<lambda>rs1 _ h1. (racks_rep n0 h1 racks rs1 \<and> take n0 h1 = take n0 h) \<and>
              map_of rs1 rid \<noteq> None)"
proof -
  have "sim (and_then (subscript n (sel v)) (\<lambda>x. Inr (AList.map_entry rid (f x) rs)))
           (rack_add racks rid (asset_field a n sel) f h)
           (\<lambda>rs1 _ h1. racks_rep n0 h1 racks rs1 \<and> take n0 h1 = take n0 h)"
    using rep key sim_field [OF a v]
    by (rule rack_add_sim [where rhs = "asset_field a n sel"])
  with key show ?thesis
    by (cases "sel v") (auto simp: sim_def map_of_map_entry)
qed

lemma aggregate_body_sim:
  assumes rep: "racks_rep n0 h racks rs" and a: "a < n0" and v: "h ! a = Asset_dict v"
  shows "sim (aggregate_body v rs) (aggregate_body_h a racks h)
           (\<lambda>rs1 _ h1. racks_rep n0 h1 racks rs1 \<and> take n0 h1 = take n0 h)"
  unfolding aggregate_body_def aggregate_body_h_def
proof (rule sim_bind)
  from rep a have alen: "a < length h" by (simp add: racks_rep_def)
  then show "sim (subscript ''rack_id'' (rack_id v)) (asset_field a ''rack_id'' rack_id h)
               (\<lambda>x y h1. y = x \<and> h1 = h)"
    using v by (rule sim_field)
next
  fix rid :: string and y h1
  assume "y = rid \<and> h1 = (h::heap)"
  then have y: "y = rid" and h1: "h1 = h" by simp_all
  let ?rs1 = "if map_of rs rid = None
              then AList.update rid \<lparr>units_used = 0, power_used_watts = 0\<rparr> rs else rs"
  show "sim (and_then (Inr ?rs1) (\<lambda>racks1.
              and_then (subscript ''status'' (status v)) (\<lambda>st.
                if st = ''Online''
                then and_then
                       (and_then (subscript ''rack_units'' (rack_units v)) (\<lambda>u.
                          Inr (AList.map_entry rid (\<lambda>m. m\<lparr>units_used := units_used m + u\<rparr>) racks1)))
                       (\<lambda>racks2.
                          and_then (subscript ''power_watts'' (power_watts v)) (\<lambda>p.
                            Inr (AList.map_entry rid
                                   (\<lambda>m. m\<lparr>power_used_watts := power_used_watts m + p\<rparr>) racks2)))
                else Inr racks1)))
          (seq (init_rack racks y) (\<lambda>_.
             seq (asset_field a ''status'' status) (\<lambda>st.
               if st = ''Online''
               then seq (rack_add racks y (asset_field a ''rack_units'' rack_units)
                           (\<lambda>u m. m\<lparr>units_used := units_used m + u\<rparr>)) (\<lambda>_.
                      rack_add racks y (asset_field a ''power_watts'' power_watts)
                        (\<lambda>p m. m\<lparr>power_used_watts := power_used_watts m + p\<rparr>))
               else ret ())) h1)
          (\<lambda>rs1 _ h1. racks_rep n0 h1 racks rs1 \<and> take n0 h1 = take n0 h)"
    unfolding y h1
  proof (rule sim_bind)
    show "sim (Inr ?rs1) (init_rack racks rid h)
            (\<lambda>rs1 _ h1. (racks_rep n0 h1 racks rs1 \<and> take n0 h1 = take n0 h) \<and> rs1 = ?rs1)"
      using init_rack_sim [OF rep, of rid] by (simp add: sim_def)
  next
    fix rs1 and u :: unit and h2
    assume "(racks_rep n0 h2 racks rs1 \<and> take n0 h2 = take n0 h) \<and> rs1 = ?rs1"
    then have rep2: "racks_rep n0 h2 racks rs1" and pre2: "take n0 h2 = take n0 h"
      and rs1: "rs1 = ?rs1" by blast+
    from rep2 a have alen2: "a < length h2" by (simp add: racks_rep_def)
    from same_prefix_nth [OF pre2 a] v have v2: "h2 ! a = Asset_dict v" by simp
    have key1: "map_of rs1 rid \<noteq> None"
      unfolding rs1 by (simp add: update_conv')
    show "sim (and_then (subscript ''status'' (status v)) (\<lambda>st.
                if st = ''Online''
                then and_then
                       (and_then (subscript ''rack_units'' (rack_units v)) (\<lambda>u.
                          Inr (AList.map_entry rid (\<lambda>m. m\<lparr>units_used := units_used m + u\<rparr>) rs1)))
                       (\<lambda>racks2.
                          and_then (subscript ''power_watts'' (power_watts v)) (\<lambda>p.
                            Inr (AList.map_entry rid
                                   (\<lambda>m. m\<lparr>power_used_watts := power_used_watts m + p\<rparr>) racks2)))
                else Inr rs1))
            (seq (asset_field a ''status'' status) (\<lambda>st.
               if st = ''Online''
               then seq (rack_add racks rid (asset_field a ''rack_units'' rack_units)
                           (\<lambda>u m. m\<lparr>units_used := units_used m + u\<rparr>)) (\<lambda>_.
                      rack_add racks rid (asset_field a ''power_watts'' power_watts)
                        (\<lambda>p m. m\<lparr>power_used_watts := power_used_watts m + p\<rparr>))
               else ret ()) h2)
            (\<lambda>rs1 _ h1. racks_rep n0 h1 racks rs1 \<and> take n0 h1 = take n0 h)"
    proof (rule sim_bind)
      show "sim (subscript ''status'' (status v)) (asset_field a ''status'' status h2)
              (\<lambda>x y h1. y = x \<and> h1 = h2)"
        using alen2 v2 by (rule sim_field)
    next
      fix st :: string and y2 h3
      assume "y2 = st \<and> h3 = h2"
      then have y2: "y2 = st" and h3: "h3 = h2" by simp_all
      show "sim (if st = ''Online''
                 then and_then
                        (and_then (subscript ''rack_units'' (rack_units v)) (\<lambda>u.
                           Inr (AList.map_entry rid (\<lambda>m. m\<lparr>units_used := units_used m + u\<rparr>) rs1)))
                        (\<lambda>racks2.
                           and_then (subscript ''power_watts'' (power_watts v)) (\<lambda>p.
                             Inr (AList.map_entry rid
                                    (\<lambda>m. m\<lparr>power_used_watts := power_used_watts m + p\<rparr>) racks2)))
                 else Inr rs1)
              ((if y2 = ''Online''
                then seq (rack_add racks rid (asset_field a ''rack_units'' rack_units)
                            (\<lambda>u m. m\<lparr>units_used := units_used m + u\<rparr>)) (\<lambda>_.
                       rack_add racks rid (asset_field a ''power_watts'' power_watts)
                         (\<lambda>p m. m\<lparr>power_used_watts := power_used_watts m + p\<rparr>))
                else ret ()) h3)
              (\<lambda>rs1 _ h1. racks_rep n0 h1 racks rs1 \<and> take n0 h1 = take n0 h)"
      proof (cases "st = ''Online''")
        case False
        with rep2 pre2 show ?thesis
          by (simp add: y2 h3 sim_def ret_def)
      next
        case True
        have "sim (and_then
                     (and_then (subscript ''rack_units'' (rack_units v)) (\<lambda>u.
                        Inr (AList.map_entry rid (\<lambda>m. m\<lparr>units_used := units_used m + u\<rparr>) rs1)))
                     (\<lambda>racks2.
                        and_then (subscript ''power_watts'' (power_watts v)) (\<lambda>p.
                          Inr (AList.map_entry rid
                                 (\<lambda>m. m\<lparr>power_used_watts := power_used_watts m + p\<rparr>) racks2))))
                (seq (rack_add racks rid (asset_field a ''rack_units'' rack_units)
                        (\<lambda>u m. m\<lparr>units_used := units_used m + u\<rparr>)) (\<lambda>_.
                   rack_add racks rid (asset_field a ''power_watts'' power_watts)
                     (\<lambda>p m. m\<lparr>power_used_watts := power_used_watts m + p\<rparr>)) h2)
                (\<lambda>rs1 _ h1. racks_rep n0 h1 racks rs1 \<and> take n0 h1 = take n0 h)"
        proof (rule sim_bind)
          show "sim (and_then (subscript ''rack_units'' (rack_units v)) (\<lambda>u.
                       Inr (AList.map_entry rid (\<lambda>m. m\<lparr>units_used := units_used m + u\<rparr>) rs1)))
                  (rack_add racks rid (asset_field a ''rack_units'' rack_units)
                     (\<lambda>u m. m\<lparr>units_used := units_used m + u\<rparr>) h2)
                  (\<lambda>rs2 _ h4. (racks_rep n0 h4 racks rs2 \<and> take n0 h4 = take n0 h2) \<and>
                     map_of rs2 rid \<noteq> None)"
            using rep2 key1 alen2 v2 by (rule rack_add_field_sim)
        next
          fix rs2 and u2 :: unit and h4
          assume "(racks_rep n0 h4 racks rs2 \<and> take n0 h4 = take n0 h2) \<and> map_of rs2 rid \<noteq> None"
          then have rep4: "racks_rep n0 h4 racks rs2" and pre4: "take n0 h4 = take n0 h2"
            and key2: "map_of rs2 rid \<noteq> None" by simp_all
          from rep4 a have alen4: "a < length h4" by (simp add: racks_rep_def)
          from same_prefix_nth [OF pre4 a] v2 have v4: "h4 ! a = Asset_dict v" by simp
          from rack_add_field_sim [OF rep4 key2 alen4 v4, of "''power_watts''" power_watts
              "\<lambda>p m. m\<lparr>power_used_watts := power_used_watts m + p\<rparr>"] pre4 pre2
          show "sim (and_then (subscript ''power_watts'' (power_watts v)) (\<lambda>p.
                       Inr (AList.map_entry rid
                              (\<lambda>m. m\<lparr>power_used_watts := power_used_watts m + p\<rparr>) rs2)))
                  (rack_add racks rid (asset_field a ''power_watts'' power_watts)
                     (\<lambda>p m. m\<lparr>power_used_watts := power_used_watts m + p\<rparr>) h4)
                  (\<lambda>rs1 _ h1. racks_rep n0 h1 racks rs1 \<and> take n0 h1 = take n0 h)"
            by (auto simp: sim_def split: sum.splits)
        qed
        with True show ?thesis by (simp add: y2 h3)
      qed
    qed
  qed
qed

lemma asset_of_Some: "asset_of x \<noteq> None \<Longrightarrow> x = Asset_dict (the (asset_of x))"
  by (cases x) (simp_all add: asset_of_def)

lemma aggregate_h_sim:
  assumes "racks_rep n0 h racks rs" and "\<forall>a\<in>set as. a < n0 \<and> asset_of (h ! a) \<noteq> None"
  shows "sim (aggregate (map (\<lambda>a. the (asset_of (h ! a))) as) rs) (aggregate_h as racks h)
           (\<lambda>rs1 _ h1. racks_rep n0 h1 racks rs1 \<and> take n0 h1 = take n0 h)"
  using assms
proof (induction as arbitrary: h rs)
  case Nil
  then show ?case by (simp add: sim_def ret_def)
next
  case (Cons a as)
  let ?v = "the (asset_of (h ! a))"
  from Cons.prems have a: "a < n0" and v: "h ! a = Asset_dict ?v"
    by (simp_all add: asset_of_Some)
  have "sim (and_then (aggregate_body ?v rs) (aggregate (map (\<lambda>a. the (asset_of (h ! a))) as)))
          (seq (aggregate_body_h a racks) (\<lambda>_. aggregate_h as racks) h)
          (\<lambda>rs1 _ h1. racks_rep n0 h1 racks rs1 \<and> take n0 h1 = take n0 h)"
  proof (rule sim_bind)
    show "sim (aggregate_body ?v rs) (aggregate_body_h a racks h)
            (\<lambda>rs1 _ h1. racks_rep n0 h1 racks rs1 \<and> take n0 h1 = take n0 h)"
      using Cons.prems(1) a v by (rule aggregate_body_sim)
  next
    fix rs1 and u :: unit and h1
    assume "racks_rep n0 h1 racks rs1 \<and> take n0 h1 = take n0 h"
    then have rep1: "racks_rep n0 h1 racks rs1" and pre1: "take n0 h1 = take n0 h" by simp_all
    have same: "\<forall>b\<in>set as. h1 ! b = h ! b"
      using Cons.prems(2) same_prefix_nth [OF pre1] by simp
    then have ok: "\<forall>b\<in>set as. b < n0 \<and> asset_of (h1 ! b) \<noteq> None"
      using Cons.prems(2) by simp
    have "map (\<lambda>a. the (asset_of (h1 ! a))) as = map (\<lambda>a. the (asset_of (h ! a))) as"
      using same by simp
    with Cons.IH [OF rep1 ok] pre1
    show "sim (aggregate (map (\<lambda>a. the (asset_of (h ! a))) as) rs1) (aggregate_h as racks h1)
            (\<lambda>rs1 _ h1. racks_rep n0 h1 racks rs1 \<and> take n0 h1 = take n0 h)"
      by (auto simp: sim_def split: sum.splits)
  qed
  then show ?case
    by (simp add: aggregate_Cons del: aggregate.simps)
qed

lemma length_push [simp]: "length (push h l x) = Suc (length h)"
  by (simp add: push_def)

lemma nth_push: "a < length h \<Longrightarrow> a \<noteq> l \<Longrightarrow> push h l x ! a = h ! a"
  by (simp add: push_def nth_append)

lemma nth_push_new: "l < length h \<Longrightarrow> push h l x ! length h = x"
  by (simp add: push_def)

lemma nth_push_list:
  "l < length h \<Longrightarrow> h ! l = List_obj ds \<Longrightarrow> push h l x ! l = List_obj (ds @ [length h])"
  by (simp add: push_def elems_of_def)

lemma take_push: "n0 \<le> l \<Longrightarrow> l < length h \<Longrightarrow> take n0 (push h l x) = take n0 h"
  by (simp add: push_def)

lemma new_append_run:
  assumes "l < length h" and "h ! l = List_obj ds"
  shows "seq (new x) (\<lambda>d. seq (list_append l d) k) h = k () (push h l x)"
proof -
  have a: "l < length (h @ [x])" and b: "(h @ [x]) ! l = List_obj ds"
    using assms by (simp_all add: nth_append)
  have "list_append l (length h) (h @ [x]) = Inr ((), push h l x)"
    using assms by (simp add: list_append_at [OF a b] push_def elems_of_def)
  then show ?thesis
    unfolding seq_new by (simp add: seq_def)
qed

lemma new_append_end:
  assumes "l < length h" and "h ! l = List_obj ds"
  shows "seq (new x) (\<lambda>d. list_append l d) h = Inr ((), push h l x)"
proof -
  have a: "l < length (h @ [x])" and b: "(h @ [x]) ! l = List_obj ds"
    using assms by (simp_all add: nth_append)
  have "list_append l (length h) (h @ [x]) = Inr ((), push h l x)"
    using assms by (simp add: list_append_at [OF a b] push_def elems_of_def)
  then show ?thesis
    by (simp add: seq_new)
qed

lemma list_rep_push:
  assumes rep: "list_rep view n0 h l vs" and x: "view x = Some v"
    and lists: "\<And>xs. view (List_obj xs) = None"
  shows "list_rep view n0 (push h l x) l (vs @ [v])"
proof -
  from rep obtain ds where lo: "n0 \<le> l" and hi: "l < length h" and ds: "h ! l = List_obj ds"
    and range: "\<forall>d\<in>set ds. n0 \<le> d \<and> d < length h"
    and vals: "map (\<lambda>d. view (h ! d)) ds = map Some vs"
    by (auto simp: list_rep_def)
  have ne: "\<forall>d\<in>set ds. d \<noteq> l"
  proof
    fix d assume d: "d \<in> set ds"
    then have "view (h ! d) \<in> set (map (\<lambda>d. view (h ! d)) ds)" by simp
    with vals have "view (h ! d) \<noteq> None" by auto
    with ds lists show "d \<noteq> l" by auto
  qed
  have "map (\<lambda>d. view (push h l x ! d)) ds = map (\<lambda>d. view (h ! d)) ds"
    using range ne by (intro map_cong) (simp_all add: nth_push)
  with vals x hi have "map (\<lambda>d. view (push h l x ! d)) (ds @ [length h]) = map Some (vs @ [v])"
    by (simp add: nth_push_new)
  moreover have "\<forall>d\<in>set (ds @ [length h]). n0 \<le> d \<and> d < length (push h l x)"
    using range lo hi by auto
  ultimately show ?thesis
    unfolding list_rep_def using lo hi nth_push_list [OF hi ds]
    by (intro conjI exI [of _ "ds @ [length h]"]) simp_all
qed

lemma list_rep_push_other:
  assumes rep: "list_rep view n0 h k vs" and ne: "k \<noteq> l"
    and lists: "\<And>xs. view (List_obj xs) = None"
    and l: "l < length h" "h ! l = List_obj es"
  shows "list_rep view n0 (push h l x) k vs"
proof -
  from rep obtain ds where lo: "n0 \<le> k" and hi: "k < length h" and ds: "h ! k = List_obj ds"
    and range: "\<forall>d\<in>set ds. n0 \<le> d \<and> d < length h"
    and vals: "map (\<lambda>d. view (h ! d)) ds = map Some vs"
    by (auto simp: list_rep_def)
  have nel: "\<forall>d\<in>set ds. d \<noteq> l"
  proof
    fix d assume d: "d \<in> set ds"
    then have "view (h ! d) \<in> set (map (\<lambda>d. view (h ! d)) ds)" by simp
    with vals have "view (h ! d) \<noteq> None" by auto
    with l lists show "d \<noteq> l" by auto
  qed
  have "map (\<lambda>d. view (push h l x ! d)) ds = map (\<lambda>d. view (h ! d)) ds"
    using range nel by (intro map_cong) (simp_all add: nth_push)
  with vals have "map (\<lambda>d. view (push h l x ! d)) ds = map Some vs" by simp
  moreover have "\<forall>d\<in>set ds. n0 \<le> d \<and> d < length (push h l x)"
    using range by auto
  moreover have "push h l x ! k = List_obj ds"
    using hi ne ds by (simp add: nth_push)
  ultimately show ?thesis
    unfolding list_rep_def using lo hi
    by (intro conjI exI [of _ ds]) simp_all
qed

lemma rack_entry_push:
  assumes "list_all2 (rack_entry h) ix rs" and "h ! l = List_obj es"
  shows "list_all2 (rack_entry (push h l x)) ix rs"
  using assms(1)
proof (rule list.rel_mono_strong)
  fix e p
  assume "e \<in> set ix" and ent: "rack_entry h e p"
  with assms(2) have "snd e \<noteq> l" by (auto simp: rack_entry_def)
  with ent show "rack_entry (push h l x) e p"
    by (simp add: rack_entry_def nth_push)
qed

lemma finalize_h_sim:
  assumes "list_all2 (rack_entry h) items rs" and "list_rep metric_of n0 h cm acc"
  shows "\<exists>h1. finalize_h items cm tot h = Inr (snd (finalize rs acc tot), h1) \<and>
              list_rep metric_of n0 h1 cm (fst (finalize rs acc tot)) \<and>
              take n0 h1 = take n0 h"
  using assms
proof (induction items arbitrary: rs acc tot h)
  case Nil
  then show ?case by (simp add: ret_def)
next
  case (Cons e items)
  obtain rid r where e: "e = (rid, r)" by (cases e)
  from Cons.prems(1) obtain p rs' where rs0: "rs = p # rs'"
    and ent0: "rack_entry h e p" and rest: "list_all2 (rack_entry h) items rs'"
    by (auto simp: list_all2_Cons1)
  obtain m where p: "p = (rid, m)"
    using ent0 e by (cases p) (simp add: rack_entry_def)
  from rs0 p have rs: "rs = (rid, m) # rs'" by simp
  from ent0 e p have ent: "rack_entry h (rid, r) (rid, m)" by simp
  from ent have rlen: "r < length h" and rat: "h ! r = Rack_dict m"
    by (simp_all add: rack_entry_def)
  from Cons.prems(2) obtain ds where lo: "n0 \<le> cm" and hi: "cm < length h"
    and ds: "h ! cm = List_obj ds"
    by (auto simp: list_rep_def)
  let ?x = "Metric_dict (rack_metric rid m)"
  let ?h1 = "push h cm ?x"
  have run: "finalize_h (e # items) cm tot h =
             finalize_h items cm (tot + power_used_watts m) ?h1"
    by (simp add: e seq_read_rack [OF rlen rat] new_append_run [OF hi ds])
  have rest1: "list_all2 (rack_entry ?h1) items rs'"
    using rest ds by (rule rack_entry_push)
  have rep1: "list_rep metric_of n0 ?h1 cm (acc @ [rack_metric rid m])"
    using Cons.prems(2) by (rule list_rep_push) (simp_all add: metric_of_def)
  from Cons.IH [OF rest1 rep1, of "tot + power_used_watts m"] run rs take_push [OF lo hi, of ?x]
  show ?case by auto
qed

lemma list_of_kind_values:
  assumes "list_of_kind asset_of h l"
  shows "\<exists>as. l < length h \<and> h ! l = List_obj as \<and>
              (\<forall>a\<in>set as. a < length h \<and> asset_of (h ! a) \<noteq> None) \<and>
              values_of asset_of h l = map (\<lambda>a. the (asset_of (h ! a))) as"
  using assms by (auto simp: list_of_kind_def values_of_def elems_of_def)

lemma list_rep_values: "list_rep view n0 h l vs \<Longrightarrow> values_of view h l = vs"
proof -
  assume "list_rep view n0 h l vs"
  then obtain ds where "l < length h" and "h ! l = List_obj ds"
    and vals: "map (\<lambda>d. view (h ! d)) ds = map Some vs"
    by (auto simp: list_rep_def)
  moreover have "map (\<lambda>d. the (view (h ! d))) ds = map the (map (\<lambda>d. view (h ! d)) ds)"
    by simp
  moreover have "map the (map Some vs) = vs"
    by (simp add: o_def)
  ultimately show ?thesis
    by (simp add: values_of_def elems_of_def del: map_map)
qed

lemma list_rep_extend:
  assumes rep: "list_rep view n0 h l vs" and ext: "take (length h) h1 = h"
  shows "list_rep view n0 h1 l vs"
proof -
  from rep obtain ds where lo: "n0 \<le> l" and hi: "l < length h" and ds: "h ! l = List_obj ds"
    and range: "\<forall>d\<in>set ds. n0 \<le> d \<and> d < length h"
    and vals: "map (\<lambda>d. view (h ! d)) ds = map Some vs"
    by (auto simp: list_rep_def)
  have same: "\<And>a. a < length h \<Longrightarrow> h1 ! a = h ! a"
    using ext by (metis nth_take)
  have len: "length h \<le> length h1"
    using arg_cong [OF ext, of length] by simp
  have "map (\<lambda>d. view (h1 ! d)) ds = map (\<lambda>d. view (h ! d)) ds"
    using range same by (intro map_cong) simp_all
  with vals have "map (\<lambda>d. view (h1 ! d)) ds = map Some vs" by simp
  moreover have "\<forall>d\<in>set ds. n0 \<le> d \<and> d < length h1"
    using range len by auto
  ultimately show ?thesis
    unfolding list_rep_def using lo hi len same [OF hi] ds
    by (intro conjI exI [of _ ds]) simp_all
qed

lemma analyze_capacity_h_sim:
  assumes wf: "list_of_kind asset_of h l"
  shows "case analyze_capacity (values_of asset_of h l) of
           Inl e \<Rightarrow> analyze_capacity_h l h = Inl (Raise e)
         | Inr r \<Rightarrow>
             (\<exists>lcm h1. analyze_capacity_h l h = Inr ((lcm, snd r), h1) \<and>
                        list_rep metric_of (length h) h1 lcm (fst r) \<and>
                        take (length h) h1 = h)"
proof -
  from wf obtain as where hi: "l < length h" and as: "h ! l = List_obj as"
    and ok: "\<forall>a\<in>set as. a < length h \<and> asset_of (h ! a) \<noteq> None"
    and vals: "values_of asset_of h l = map (\<lambda>a. the (asset_of (h ! a))) as"
    using list_of_kind_values by blast
  let ?n = "length h"
  let ?h1 = "h @ [Racks_dict []]"
  let ?vs = "map (\<lambda>a. the (asset_of (h ! a))) as"
  have rep1: "racks_rep ?n ?h1 ?n []"
    by (simp add: racks_rep_def)
  have ok1: "\<forall>a\<in>set as. a < ?n \<and> asset_of (?h1 ! a) \<noteq> None"
    using ok by (simp add: nth_append)
  have vs1: "map (\<lambda>a. the (asset_of (?h1 ! a))) as = ?vs"
    using ok by (intro map_cong) (simp_all add: nth_append)
  have run1: "analyze_capacity_h l h =
      seq (aggregate_h as ?n) (\<lambda>_.
        seq (new (List_obj [])) (\<lambda>capacity_metrics.
          seq (read_racks ?n) (\<lambda>items.
            seq (finalize_h items capacity_metrics 0) (\<lambda>total_power_used_watts.
              ret (capacity_metrics, length as, total_power_used_watts))))) ?h1"
    by (simp add: analyze_capacity_h_def seq_read_list [OF hi as] seq_new)
  from aggregate_h_sim [OF rep1 ok1] vs1
  have agg: "sim (aggregate ?vs []) (aggregate_h as ?n ?h1)
               (\<lambda>rs1 _ h2. racks_rep ?n h2 ?n rs1 \<and> take ?n h2 = take ?n ?h1)"
    by simp
  show ?thesis
  proof (cases "aggregate ?vs []")
    case (Inl e)
    with agg have "aggregate_h as ?n ?h1 = Inl (Raise e)" by (simp add: sim_def)
    with Inl show ?thesis
      by (simp add: vals analyze_capacity_def run1 seq_Inl)
  next
    case (Inr rs)
    with agg obtain h2 where run2: "aggregate_h as ?n ?h1 = Inr ((), h2)"
      and rep2: "racks_rep ?n h2 ?n rs" and pre2: "take ?n h2 = h"
      by (auto simp: sim_def)
    from rep2 obtain ix where hi2: "?n < length h2" and ix: "h2 ! ?n = Racks_dict ix"
      and rel: "list_all2 (rack_entry h2) ix rs"
      by (auto simp: racks_rep_def)
    let ?h3 = "h2 @ [List_obj []]"
    have hi3: "?n < length ?h3" and ix3: "?h3 ! ?n = Racks_dict ix"
      using hi2 ix by (simp_all add: nth_append)
    have rel3: "list_all2 (rack_entry ?h3) ix rs"
      using rel
    proof (rule rack_entry_stable)
      show "length h2 \<le> length ?h3" by simp
    next
      fix r assume "r \<in> snd ` set ix"
      then obtain k where "(k, r) \<in> set ix" by auto
      from rack_entry_in_range [OF rel this] show "?h3 ! r = h2 ! r"
        by (simp add: nth_append)
    qed
    have rep3: "list_rep metric_of ?n ?h3 (length h2) []"
      using hi2 by (simp add: list_rep_def)
    from finalize_h_sim [OF rel3 rep3, of 0] obtain h4
      where run4: "finalize_h ix (length h2) 0 ?h3 = Inr (snd (finalize rs [] 0), h4)"
        and rep4: "list_rep metric_of ?n h4 (length h2) (fst (finalize rs [] 0))"
        and pre4: "take ?n h4 = take ?n ?h3"
      by blast
    have "analyze_capacity_h l h =
            Inr ((length h2, length as, snd (finalize rs [] 0)), h4)"
      by (simp add: run1 seq_Inr [where m = "aggregate_h as ?n" and h = ?h1, OF run2] seq_new
          seq_read_racks [OF hi3 ix3]
          seq_Inr [where m = "finalize_h ix (length h2) 0" and h = ?h3, OF run4] ret_def)
    moreover have "analyze_capacity ?vs =
                     Inr (fst (finalize rs [] 0), length as, snd (finalize rs [] 0))"
      by (simp add: analyze_capacity_def Inr split: prod.splits)
    moreover have "take ?n h4 = h"
      using pre4 pre2 hi2 by simp
    ultimately show ?thesis
      using rep4 by (simp add: vals)
  qed
qed

lemma seq_field:
  "a < length h \<Longrightarrow> h ! a = Asset_dict v \<Longrightarrow>
   seq (asset_field a n sel) f h =
   (case sel v of None \<Rightarrow> Inl (Raise (KeyError n)) | Some x \<Rightarrow> f x h)"
  by (cases "sel v")
     (simp_all add: asset_field_def read_asset_def seq_def load_def ret_def raise_def)

lemma eol_check_sim:
  assumes a: "a < length h" and v: "h ! a = Asset_dict v"
    and e: "list_rep eol_of n0 h le es" and w: "list_rep vendor_of n0 h lv ws"
    and ne: "le \<noteq> lv"
  shows "sim (eol_step v es) (eol_check a le h)
           (\<lambda>es1 _ h1. list_rep eol_of n0 h1 le es1 \<and> list_rep vendor_of n0 h1 lv ws \<and>
              take n0 h1 = take n0 h)"
proof -
  from e obtain ds where lo: "n0 \<le> le" and hi: "le < length h" and ds: "h ! le = List_obj ds"
    by (auto simp: list_rep_def)
  have p1: "list_rep eol_of n0 (push h le (Eol_dict x)) le (es @ [x])" for x
    using e by (rule list_rep_push) (simp_all add: eol_of_def)
  have p2: "list_rep vendor_of n0 (push h le x) lv ws" for x
    using w ne [symmetric] _ hi ds by (rule list_rep_push_other) (simp add: vendor_of_def)
  note p3 = take_push [OF lo hi]
  show ?thesis
    by (cases "asset_age_years v"; cases "status v"; cases "asset_id v"; cases "rack_id v")
       (simp_all add: eol_step_def eol_check_def seq_field [OF a v] sim_def ret_def
          new_append_end [OF hi ds] p1 p2 p3 e w)
qed

lemma vendor_check_sim:
  assumes a: "a < length h" and v: "h ! a = Asset_dict v"
    and e: "list_rep eol_of n0 h le es" and w: "list_rep vendor_of n0 h lv ws"
    and ne: "le \<noteq> lv"
  shows "sim (vendor_step v ws) (vendor_check a lv h)
           (\<lambda>ws1 _ h1. list_rep eol_of n0 h1 le es \<and> list_rep vendor_of n0 h1 lv ws1 \<and>
              take n0 h1 = take n0 h)"
proof -
  from w obtain ds where lo: "n0 \<le> lv" and hi: "lv < length h" and ds: "h ! lv = List_obj ds"
    by (auto simp: list_rep_def)
  have p1: "list_rep vendor_of n0 (push h lv (Vendor_dict x)) lv (ws @ [x])" for x
    using w by (rule list_rep_push) (simp_all add: vendor_of_def)
  have p2: "list_rep eol_of n0 (push h lv x) le es" for x
    using e ne _ hi ds by (rule list_rep_push_other) (simp add: eol_of_def)
  note p3 = take_push [OF lo hi]
  show ?thesis
    by (cases "asset_age_years v"; cases "status v"; cases "asset_id v"; cases "rack_id v";
        cases "vendor v")
       (simp_all add: vendor_step_def vendor_check_def seq_field [OF a v] sim_def ret_def
          new_append_end [OF hi ds] p1 p2 p3 e w)
qed

lemma classify_h_sim:
  assumes "list_rep eol_of n0 h le es" and "list_rep vendor_of n0 h lv ws" and "le \<noteq> lv"
    and "\<forall>a\<in>set as. a < n0 \<and> asset_of (h ! a) \<noteq> None"
  shows "sim (classify (map (\<lambda>a. the (asset_of (h ! a))) as) es ws) (classify_h as le lv h)
           (\<lambda>r _ h1. list_rep eol_of n0 h1 le (fst r) \<and> list_rep vendor_of n0 h1 lv (snd r) \<and>
              take n0 h1 = take n0 h)"
  using assms
proof (induction as arbitrary: h es ws)
  case Nil
  then show ?case by (simp add: sim_def ret_def)
next
  case (Cons a as)
  let ?v = "the (asset_of (h ! a))"
  let ?vs = "map (\<lambda>a. the (asset_of (h ! a))) as"
  note ne = Cons.prems(3)
  from Cons.prems(4) have a: "a < n0" and v: "h ! a = Asset_dict ?v"
    by (simp_all add: asset_of_Some)
  from Cons.prems(1) a have alen: "a < length h" by (simp add: list_rep_def)
  have "sim (and_then (eol_step ?v es) (\<lambda>e1.
               and_then (vendor_step ?v ws) (\<lambda>v1. classify ?vs e1 v1)))
          (seq (eol_check a le) (\<lambda>_.
             seq (vendor_check a lv) (\<lambda>_. classify_h as le lv)) h)
          (\<lambda>r _ h1. list_rep eol_of n0 h1 le (fst r) \<and> list_rep vendor_of n0 h1 lv (snd r) \<and>
             take n0 h1 = take n0 h)"
  proof (rule sim_bind)
    show "sim (eol_step ?v es) (eol_check a le h)
            (\<lambda>es1 _ h1. list_rep eol_of n0 h1 le es1 \<and> list_rep vendor_of n0 h1 lv ws \<and>
               take n0 h1 = take n0 h)"
      using alen v Cons.prems(1,2) ne by (rule eol_check_sim)
  next
    fix es1 and u :: unit and h1
    assume "list_rep eol_of n0 h1 le es1 \<and> list_rep vendor_of n0 h1 lv ws \<and>
            take n0 h1 = take n0 h"
    then have e1: "list_rep eol_of n0 h1 le es1" and w1: "list_rep vendor_of n0 h1 lv ws"
      and pre1: "take n0 h1 = take n0 h" by simp_all
    from e1 a have alen1: "a < length h1" by (simp add: list_rep_def)
    from same_prefix_nth [OF pre1 a] v have v1: "h1 ! a = Asset_dict ?v" by simp
    show "sim (and_then (vendor_step ?v ws) (\<lambda>v1. classify ?vs es1 v1))
            (seq (vendor_check a lv) (\<lambda>_. classify_h as le lv) h1)
            (\<lambda>r _ h1. list_rep eol_of n0 h1 le (fst r) \<and> list_rep vendor_of n0 h1 lv (snd r) \<and>
               take n0 h1 = take n0 h)"
    proof (rule sim_bind)
      show "sim (vendor_step ?v ws) (vendor_check a lv h1)
              (\<lambda>ws1 _ h2. list_rep eol_of n0 h2 le es1 \<and> list_rep vendor_of n0 h2 lv ws1 \<and>
                 take n0 h2 = take n0 h1)"
        using alen1 v1 e1 w1 ne by (rule vendor_check_sim)
    next
      fix ws1 and u2 :: unit and h2
      assume "list_rep eol_of n0 h2 le es1 \<and> list_rep vendor_of n0 h2 lv ws1 \<and>
              take n0 h2 = take n0 h1"
      then have e2: "list_rep eol_of n0 h2 le es1" and w2: "list_rep vendor_of n0 h2 lv ws1"
        and pre2: "take n0 h2 = take n0 h1" by simp_all
      from pre1 pre2 have pre: "take n0 h2 = take n0 h" by simp
      have same: "\<forall>b\<in>set as. h2 ! b = h ! b"
        using Cons.prems(4) same_prefix_nth [OF pre] by simp
      then have ok: "\<forall>b\<in>set as. b < n0 \<and> asset_of (h2 ! b) \<noteq> None"
        using Cons.prems(4) by simp
      have "map (\<lambda>a. the (asset_of (h2 ! a))) as = ?vs"
        using same by simp
      with Cons.IH [OF e2 w2 ne ok] pre
      show "sim (classify ?vs es1 ws1) (classify_h as le lv h2)
              (\<lambda>r _ h1. list_rep eol_of n0 h1 le (fst r) \<and>
                 list_rep vendor_of n0 h1 lv (snd r) \<and> take n0 h1 = take n0 h)"
        by (auto simp: sim_def split: sum.splits)
    qed
  qed
  then show ?case
    by (simp add: classify_Cons del: classify.simps)
qed

lemma check_compliance_h_sim:
  assumes wf: "list_of_kind asset_of h l"
  shows "case check_compliance_and_eol (values_of asset_of h l) of
           Inl e \<Rightarrow> check_compliance_and_eol_h l h = Inl (Raise e)
         | Inr r \<Rightarrow>
             (\<exists>le lv h1. check_compliance_and_eol_h l h = Inr ((le, lv), h1) \<and>
                          list_rep eol_of (length h) h1 le (fst r) \<and>
                          list_rep vendor_of (length h) h1 lv (snd r) \<and>
                          take (length h) h1 = h)"
proof -
  from wf obtain as where hi: "l < length h" and as: "h ! l = List_obj as"
    and ok: "\<forall>a\<in>set as. a < length h \<and> asset_of (h ! a) \<noteq> None"
    and vals: "values_of asset_of h l = map (\<lambda>a. the (asset_of (h ! a))) as"
    using list_of_kind_values by blast
  let ?n = "length h"
  let ?h2 = "h @ [List_obj [], List_obj []]"
  let ?vs = "map (\<lambda>a. the (asset_of (h ! a))) as"
  have e2: "list_rep eol_of ?n ?h2 ?n []" and w2: "list_rep vendor_of ?n ?h2 (Suc ?n) []"
    by (simp_all add: list_rep_def nth_append)
  have ok2: "\<forall>a\<in>set as. a < ?n \<and> asset_of (?h2 ! a) \<noteq> None"
    using ok by (simp add: nth_append)
  have vs2: "map (\<lambda>a. the (asset_of (?h2 ! a))) as = ?vs"
    using ok by (intro map_cong) (simp_all add: nth_append)
  have l2: "l < length ?h2" "?h2 ! l = List_obj as"
    using hi as by (simp_all add: nth_append)
  have run: "check_compliance_and_eol_h l h =
               seq (classify_h as ?n (Suc ?n)) (\<lambda>_. ret (?n, Suc ?n)) ?h2"
    by (simp add: check_compliance_and_eol_h_def seq_new seq_read_list [OF l2])
  from classify_h_sim [OF e2 w2 _ ok2] vs2
  have cls: "sim (classify ?vs [] []) (classify_h as ?n (Suc ?n) ?h2)
               (\<lambda>r _ h1. list_rep eol_of ?n h1 ?n (fst r) \<and>
                  list_rep vendor_of ?n h1 (Suc ?n) (snd r) \<and> take ?n h1 = take ?n ?h2)"
    by simp
  show ?thesis
  proof (cases "classify ?vs [] []")
    case (Inl e)
    with cls have "classify_h as ?n (Suc ?n) ?h2 = Inl (Raise e)" by (simp add: sim_def)
    with Inl show ?thesis
      by (simp add: vals check_compliance_and_eol_def run seq_def)
  next
    case (Inr r)
    with cls obtain h3 where run3: "classify_h as ?n (Suc ?n) ?h2 = Inr ((), h3)"
      and e3: "list_rep eol_of ?n h3 ?n (fst r)"
      and w3: "list_rep vendor_of ?n h3 (Suc ?n) (snd r)"
      and pre3: "take ?n h3 = take ?n ?h2"
      by (auto simp: sim_def)
    have "check_compliance_and_eol_h l h = Inr ((?n, Suc ?n), h3)"
      by (simp add: run seq_def run3 ret_def)
    moreover have "take ?n h3 = h"
      using pre3 by simp
    ultimately show ?thesis
      using Inr e3 w3 by (simp add: vals check_compliance_and_eol_def)
  qed
qed

lemma list_of_kind_extend:
  assumes wf: "list_of_kind asset_of h l" and ext: "take (length h) h1 = h"
  shows "list_of_kind asset_of h1 l \<and> values_of asset_of h1 l = values_of asset_of h l"
proof -
  from wf obtain as where hi: "l < length h" and as: "h ! l = List_obj as"
    and ok: "\<forall>a\<in>set as. a < length h \<and> asset_of (h ! a) \<noteq> None"
    by (auto simp: list_of_kind_def)
  have same: "\<And>a. a < length h \<Longrightarrow> h1 ! a = h ! a"
    using ext by (metis nth_take)
  have len: "length h \<le> length h1"
    using arg_cong [OF ext, of length] by simp
  have l1: "l < length h1" "h1 ! l = List_obj as"
    using hi len same [OF hi] as by simp_all
  have ok1: "\<forall>a\<in>set as. a < length h1 \<and> asset_of (h1 ! a) \<noteq> None"
    using ok len same by auto
  have "map (\<lambda>a. the (asset_of (h1 ! a))) as = map (\<lambda>a. the (asset_of (h ! a))) as"
    using ok same by (intro map_cong) simp_all
  then have "values_of asset_of h1 l = values_of asset_of h l"
    using hi as l1 by (simp add: values_of_def elems_of_def)
  moreover have "list_of_kind asset_of h1 l"
    unfolding list_of_kind_def using l1 ok1 by simp
  ultimately show ?thesis by simp
qed

lemma list_rep_fresh:
  assumes "list_rep view n0 h l vs"
  shows "n0 \<le> l \<and> l < length h \<and>
         (\<forall>d\<in>set (elems_of h l). n0 \<le> d \<and> d < length h \<and> view (h ! d) \<noteq> None)"
proof -
  from assms obtain ds where lo: "n0 \<le> l" and hi: "l < length h" and ds: "h ! l = List_obj ds"
    and range: "\<forall>d\<in>set ds. n0 \<le> d \<and> d < length h"
    and vals: "map (\<lambda>d. view (h ! d)) ds = map Some vs"
    by (auto simp: list_rep_def)
  have "\<forall>d\<in>set ds. view (h ! d) \<noteq> None"
  proof
    fix d assume "d \<in> set ds"
    then have "view (h ! d) \<in> set (map (\<lambda>d. view (h ! d)) ds)" by simp
    with vals show "view (h ! d) \<noteq> None" by auto
  qed
  with lo hi ds range show ?thesis
    by (simp add: elems_of_def)
qed

lemma report_h_refines:
  assumes wf: "list_of_kind asset_of h l"
  shows "case report_of (values_of asset_of h l) of
           Inl e \<Rightarrow> report_h l h = Inl (Raise e)
         | Inr t \<Rightarrow> (\<exists>h1. report_h l h = Inr (t, h1) \<and> take (length h) h1 = h)"
proof (cases "analyze_capacity (values_of asset_of h l)")
  case (Inl e)
  with analyze_capacity_h_sim [OF wf] show ?thesis
    by (simp add: report_of_def report_h_def seq_def)
next
  case (Inr r)
  obtain cm n p where r: "r = (cm, n, p)" by (cases r)
  from analyze_capacity_h_sim [OF wf] Inr r obtain lcm h1
    where run1: "analyze_capacity_h l h = Inr ((lcm, n, p), h1)"
      and m1: "list_rep metric_of (length h) h1 lcm cm" and pre1: "take (length h) h1 = h"
    by auto
  from list_of_kind_extend [OF wf pre1]
  have wf1: "list_of_kind asset_of h1 l"
    and vals1: "values_of asset_of h1 l = values_of asset_of h l" by simp_all
  show ?thesis
  proof (cases "check_compliance_and_eol (values_of asset_of h l)")
    case (Inl e)
    with check_compliance_h_sim [OF wf1] vals1
    have "check_compliance_and_eol_h l h1 = Inl (Raise e)" by simp
    with Inl Inr r run1 show ?thesis
      by (simp add: report_of_def report_h_def seq_def)
  next
    case c: (Inr q)
    obtain es ws where q: "q = (es, ws)" by (cases q)
    from check_compliance_h_sim [OF wf1] vals1 c q obtain le lv h2
      where run2: "check_compliance_and_eol_h l h1 = Inr ((le, lv), h2)"
        and e2: "list_rep eol_of (length h1) h2 le es"
        and w2: "list_rep vendor_of (length h1) h2 lv ws"
        and pre2: "take (length h1) h2 = h1"
      by auto
    have m2: "list_rep metric_of (length h) h2 lcm cm"
      using m1 pre2 by (rule list_rep_extend)
    have len1: "length h \<le> length h1"
      using arg_cong [OF pre1, of length] by simp
    have "take (length h) h2 = take (length h) (take (length h1) h2)"
      using len1 by (simp add: min_def)
    with pre1 pre2 have pre: "take (length h) h2 = h" by simp
    have "report_h l h =
            Inr (generate_report cm n p es ws, h2)"
      by (simp add: report_h_def seq_def run1 run2 list_rep_values [OF m2]
          list_rep_values [OF e2] list_rep_values [OF w2])
    with Inr r c q pre show ?thesis
      by (simp add: report_of_def)
  qed
qed

section \<open>The capacity aggregator\<close>



section \<open>The compliance classifier\<close>

text \<open>
  C2 (EOL candidates). On every input whose records hold the fields the classifier
  reads, the classifier returns, and its EOL output is the sequence of entries of
  exactly the assets with \<open>asset_age_years \<ge> EOL_AGE_YEARS\<close> and a status other than
  \<^verbatim>\<open>Decom Pending\<close>, in input order. An asset awaiting decommission is not among
  those assets, whatever its age.
\<close>

theorem eol_candidates:
  assumes "\<forall>a\<in>set assets. compliance_fields_present a"
  shows "\<exists>vendor_risk_assets.
           check_compliance_and_eol assets =
             Inr (map eol_entry (filter is_eol assets), vendor_risk_assets) \<and>
           (\<forall>a\<in>set assets.
              a \<in> set (filter is_eol assets) \<longleftrightarrow>
                EOL_AGE_YEARS \<le> the (asset_age_years a) \<and> status a \<noteq> Some ''Decom Pending'') \<and>
           (\<forall>a\<in>set assets. status a = Some ''Decom Pending'' \<longrightarrow> a \<notin> set (filter is_eol assets))"
  using classify_returns [OF assms, of "[]" "[]"]
  by (simp add: check_compliance_and_eol_def is_eol_def)

theorem eol_candidates_witness:
  "compliance_fields_present asset_A1 \<and> compliance_fields_present asset_decom \<and>
   compliance_fields_present asset_A2 \<and>
   check_compliance_and_eol [asset_A1, asset_decom, asset_A2] =
     Inr ([\<lparr>eol_id = ''A1'', eol_rack = ''R1'', eol_age = 6, eol_status = ''EOL Risk''\<rparr>],
          [\<lparr>vr_id = ''A1'', vr_rack = ''R1'', vr_vendor = ''HP'', vr_age = 6\<rparr>]) \<and>
   map eol_entry (filter is_eol [asset_A1, asset_decom, asset_A2]) =
     [\<lparr>eol_id = ''A1'', eol_rack = ''R1'', eol_age = 6, eol_status = ''EOL Risk''\<rparr>] \<and>
   EOL_AGE_YEARS \<le> the (asset_age_years asset_decom) \<and>
   status asset_decom = Some ''Decom Pending'' \<and>
   asset_decom \<notin> set (filter is_eol [asset_A1, asset_decom, asset_A2])"
proof -
  have h: "\<forall>a\<in>set [asset_A1, asset_decom, asset_A2]. compliance_fields_present a"
    by (simp add: compliance_fields_present_def is_eol_def is_vendor_risk_def
        asset_decom_def asset_A1_def asset_A2_def EOL_AGE_YEARS_def CRITICAL_VENDORS_def)
  have ev: "check_compliance_and_eol [asset_A1, asset_decom, asset_A2] =
     Inr ([\<lparr>eol_id = ''A1'', eol_rack = ''R1'', eol_age = 6, eol_status = ''EOL Risk''\<rparr>],
          [\<lparr>vr_id = ''A1'', vr_rack = ''R1'', vr_vendor = ''HP'', vr_age = 6\<rparr>])"
    by code_simp
  have d: "EOL_AGE_YEARS \<le> the (asset_age_years asset_decom)"
      "status asset_decom = Some ''Decom Pending''"
    by (simp_all add: asset_decom_def EOL_AGE_YEARS_def)
  from eol_candidates [OF h] ev h d show ?thesis
    by auto
qed

text \<open>
  C3 (vendor-risk candidates). On every input whose records hold the fields the
  classifier reads, the classifier returns, and its vendor-risk output is the sequence
  of entries of exactly the assets whose vendor is one of \<^verbatim>\<open>CRITICAL_VENDORS\<close>
  (\<^verbatim>\<open>HP\<close>, \<^verbatim>\<open>EMC\<close>) and whose status is \<^verbatim>\<open>Online\<close>, in input order. An asset of a
  critical vendor with any other status is not among those assets.
\<close>

theorem vendor_risk_candidates:
  assumes "\<forall>a\<in>set assets. compliance_fields_present a"
  shows "\<exists>eol_assets.
           check_compliance_and_eol assets =
             Inr (eol_assets, map vendor_entry (filter is_vendor_risk assets)) \<and>
           set CRITICAL_VENDORS = {''HP'', ''EMC''} \<and>
           (\<forall>a\<in>set assets.
              a \<in> set (filter is_vendor_risk assets) \<longleftrightarrow>
                the (vendor a) \<in> set CRITICAL_VENDORS \<and> status a = Some ''Online'') \<and>
           (\<forall>a\<in>set assets. status a \<noteq> Some ''Online'' \<longrightarrow>
              a \<notin> set (filter is_vendor_risk assets))"
  using classify_returns [OF assms, of "[]" "[]"]
  by (simp add: check_compliance_and_eol_def is_vendor_risk_def CRITICAL_VENDORS_def)

theorem vendor_risk_candidates_witness:
  "compliance_fields_present asset_decom \<and> compliance_fields_present asset_A2 \<and>
   compliance_fields_present asset_A1 \<and>
   check_compliance_and_eol [asset_decom, asset_A2, asset_A1] =
     Inr ([\<lparr>eol_id = ''A1'', eol_rack = ''R1'', eol_age = 6, eol_status = ''EOL Risk''\<rparr>],
          [\<lparr>vr_id = ''A1'', vr_rack = ''R1'', vr_vendor = ''HP'', vr_age = 6\<rparr>]) \<and>
   map vendor_entry (filter is_vendor_risk [asset_decom, asset_A2, asset_A1]) =
     [\<lparr>vr_id = ''A1'', vr_rack = ''R1'', vr_vendor = ''HP'', vr_age = 6\<rparr>] \<and>
   the (vendor asset_decom) \<in> set CRITICAL_VENDORS \<and>
   status asset_decom \<noteq> Some ''Online'' \<and>
   asset_decom \<notin> set (filter is_vendor_risk [asset_decom, asset_A2, asset_A1])"
proof -
  have h: "\<forall>a\<in>set [asset_decom, asset_A2, asset_A1]. compliance_fields_present a"
    by (simp add: compliance_fields_present_def is_eol_def is_vendor_risk_def
        asset_decom_def asset_A1_def asset_A2_def EOL_AGE_YEARS_def CRITICAL_VENDORS_def)
  have ev: "check_compliance_and_eol [asset_decom, asset_A2, asset_A1] =
     Inr ([\<lparr>eol_id = ''A1'', eol_rack = ''R1'', eol_age = 6, eol_status = ''EOL Risk''\<rparr>],
          [\<lparr>vr_id = ''A1'', vr_rack = ''R1'', vr_vendor = ''HP'', vr_age = 6\<rparr>])"
    by code_simp
  have d: "the (vendor asset_decom) \<in> set CRITICAL_VENDORS"
      "status asset_decom \<noteq> Some ''Online''"
    by (simp_all add: asset_decom_def CRITICAL_VENDORS_def)
  from vendor_risk_candidates [OF h] ev h d show ?thesis
    by auto
qed

section \<open>The report formatter\<close>



section \<open>The main block\<close>

text \<open>
  C6, as the specification states it, fails: the main block runs the aggregation, the
  classification and the formatter only under \<^verbatim>\<open>if assets:\<close>, so on an empty
  sequence it prints no report. With an empty data file nothing at all is printed; with
  no data file the only line printed is the error message of \<^verbatim>\<open>load_data\<close>.
\<close>

theorem empty_input_prints_no_report:
  "main_block (data_file_with []) = \<lparr>printed = [], raised = None\<rparr> \<and>
   main_block no_files =
     \<lparr>printed = [''Error: Data file dcim_data.json not found.''], raised = None\<rparr> \<and>
   generate_report [] 0 0 [] [] \<notin> set (printed (main_block no_files))"
  by code_simp

text \<open>
  C6, amended. On the empty sequence the aggregator returns no metrics, total assets 0
  and total power 0, the classifier returns two empty sequences, and the formatter
  applied to these values renders a report whose two risk sections are the documented
  empty-case lines; none of the three raises. The main block does not call them on an
  empty sequence: when \<^verbatim>\<open>load_data\<close> returns the empty sequence the run prints
  what \<^verbatim>\<open>load_data\<close> printed and nothing else, and raises nothing.
\<close>

theorem empty_input_components:
  "analyze_capacity [] = Inr ([], 0, 0) \<and>
   check_compliance_and_eol [] = Inr ([], []) \<and>
   report_lines [] 0 0 [] [] =
     [replicate 60 CHR ''='',
      ''  DCO CAPACITY AND COMPLIANCE REPORT'',
      ''  Total Assets Tracked: 0'',
      ''  Total Active Power Draw: 0.00 kVA'',
      replicate 60 CHR ''='',
      newline,
      ''--- 1. RACK CAPACITY UTILIZATION (by Rack ID) ---'' @ newline,
      ''Rack ID   U Used    Power (kVA)    U Util.     Power Util. '',
      replicate 60 CHR ''-'',
      newline,
      ''--- 2. COMPLIANCE & END-OF-LIFE RISKS ---'' @ newline,
      ''### EOL Assets: 0 devices identified. Compliance maintained.'',
      newline,
      ''### High-Risk Vendors: No active assets from critical vendors identified.'',
      newline,
      ''--- END OF REPORT ---''] \<and>
   generate_report [] 0 0 [] [] = join newline (report_lines [] 0 0 [] []) \<and>
   (snd (load_data fs DATA_FILE) = [] \<longrightarrow>
      main_block fs = \<lparr>printed = fst (load_data fs DATA_FILE), raised = None\<rparr>)"
proof -
  have "analyze_capacity [] = Inr ([], 0, 0)"
    by (simp add: analyze_capacity_def)
  moreover have "check_compliance_and_eol [] = Inr ([], [])"
    by (simp add: check_compliance_and_eol_def)
  moreover have "report_lines [] 0 0 [] [] =
     [replicate 60 CHR ''='',
      ''  DCO CAPACITY AND COMPLIANCE REPORT'',
      ''  Total Assets Tracked: 0'',
      ''  Total Active Power Draw: 0.00 kVA'',
      replicate 60 CHR ''='',
      newline,
      ''--- 1. RACK CAPACITY UTILIZATION (by Rack ID) ---'' @ newline,
      ''Rack ID   U Used    Power (kVA)    U Util.     Power Util. '',
      replicate 60 CHR ''-'',
      newline,
      ''--- 2. COMPLIANCE & END-OF-LIFE RISKS ---'' @ newline,
      ''### EOL Assets: 0 devices identified. Compliance maintained.'',
      newline,
      ''### High-Risk Vendors: No active assets from critical vendors identified.'',
      newline,
      ''--- END OF REPORT ---'']"
    by code_simp
  moreover have "generate_report [] 0 0 [] [] = join newline (report_lines [] 0 0 [] [])"
    by (simp add: generate_report_def)
  moreover have "snd (load_data fs DATA_FILE) = [] \<Longrightarrow>
      main_block fs = \<lparr>printed = fst (load_data fs DATA_FILE), raised = None\<rparr>"
    by (cases "load_data fs DATA_FILE") (simp add: main_block_def)
  ultimately show ?thesis by blast
qed

theorem empty_input_components_witness:
  "snd (load_data no_files DATA_FILE) = [] \<and>
   fst (load_data no_files DATA_FILE) = [''Error: Data file dcim_data.json not found.''] \<and>
   main_block no_files = \<lparr>printed = fst (load_data no_files DATA_FILE), raised = None\<rparr>"
proof -
  have h: "snd (load_data no_files DATA_FILE) = []"
    by code_simp
  have p: "fst (load_data no_files DATA_FILE) = [''Error: Data file dcim_data.json not found.'']"
    by code_simp
  from empty_input_components [of no_files] h p show ?thesis
    by simp
qed

text \<open>
  C8, as the specification states it, fails twice. A record may lack fields and the run
  still succeed: the sample record without \<^verbatim>\<open>asset_id\<close>, \<^verbatim>\<open>rack_units\<close> and
  \<^verbatim>\<open>power_watts\<close> is not online and not flagged, so none of the three is read and a
  full report is printed. And when a run does fail, the exception is a \<^verbatim>\<open>KeyError\<close>
  carrying the name of the missing field; the identifier of the offending record,
  though present, is not part of it.
\<close>

theorem missing_field_counterexample:
  "\<not> has_field ''asset_id'' asset_partial \<and>
   \<not> has_field ''rack_units'' asset_partial \<and>
   \<not> has_field ''power_watts'' asset_partial \<and>
   main_block (data_file_with [asset_partial]) =
     \<lparr>printed =
        [generate_report
           [\<lparr>cm_rack_id = ''R1'', cm_units_used = 0, cm_power_used_kva = ''0.00'',
             cm_power_utilization = ''0.0%'', cm_units_utilization = ''0.0%''\<rparr>] 1 0 [] []],
      raised = None\<rparr> \<and>
   asset_id asset_no_rack = Some ''N1'' \<and>
   main_block (data_file_with [asset_no_rack]) =
     \<lparr>printed = [], raised = Some (KeyError ''rack_id'')\<rparr>"
  by code_simp

text \<open>
  C8, amended. Take a run over a non-empty input whose numbers are within the range of
  a double. If some record lacks a field that the program reads on it, the run fails as
  a whole: nothing is printed, and the exception is the \<^verbatim>\<open>KeyError\<close> of the first such
  field that \<^verbatim>\<open>analyze_capacity\<close> meets, or else that \<^verbatim>\<open>check_compliance_and_eol\<close>
  meets. It carries the name of that field, one of the seven field names, which the
  record lacks; it does not carry the identifier of the record: giving the records
  other identifiers changes nothing in the exception. If no record lacks a field that
  is read on it, exactly one report is printed and nothing is raised, whatever other
  fields are absent. No default value is substituted.
\<close>

theorem missing_field_run:
  assumes "fs DATA_FILE = Some assets" and "assets \<noteq> []" and "within_float_range assets"
  shows "(case first_missing capacity_missing assets of
            Some k \<Rightarrow> main_block fs = \<lparr>printed = [], raised = Some (KeyError k)\<rparr>
          | None \<Rightarrow>
              (case first_missing compliance_missing assets of
                 Some k \<Rightarrow> main_block fs = \<lparr>printed = [], raised = Some (KeyError k)\<rparr>
               | None \<Rightarrow> \<exists>report. main_block fs = \<lparr>printed = [report], raised = None\<rparr>)) \<and>
         (\<forall>f k. first_missing f assets = Some k \<longrightarrow> (\<exists>a\<in>set assets. f a = Some k)) \<and>
         (\<forall>a k. capacity_missing a = Some k \<or> compliance_missing a = Some k \<longrightarrow>
            k \<in> set field_names \<and> \<not> has_field k a) \<and>
         (\<forall>g fs'. fs' DATA_FILE = Some (map (relabel g) assets) \<longrightarrow>
            raised (main_block fs') = raised (main_block fs))"
proof -
  have run: "case first_missing capacity_missing assets of
            Some k \<Rightarrow> main_block fs = \<lparr>printed = [], raised = Some (KeyError k)\<rparr>
          | None \<Rightarrow>
              (case first_missing compliance_missing assets of
                 Some k \<Rightarrow> main_block fs = \<lparr>printed = [], raised = Some (KeyError k)\<rparr>
               | None \<Rightarrow> \<exists>report. main_block fs = \<lparr>printed = [report], raised = None\<rparr>)"
  proof (cases "first_missing capacity_missing assets")
    case (Some k)
    with main_block_capacity_missing [of fs, OF assms(1) Some] show ?thesis by simp
  next
    case None
    show ?thesis
    proof (cases "first_missing compliance_missing assets")
      case (Some k)
      with None main_block_compliance_missing [of fs, OF assms(1) None Some] show ?thesis
        by simp
    next
      case n: None
      with None main_block_nothing_missing [of fs, OF assms(1,2) None n] show ?thesis
        by simp
    qed
  qed
  have ids: "raised (main_block fs') = raised (main_block fs)"
    if "fs' DATA_FILE = Some (map (relabel g) assets)" for g fs'
  proof -
    from assms(2) have "map (relabel g) assets \<noteq> []" by simp
    have "first_missing capacity_missing (map (relabel g) assets) =
            first_missing capacity_missing assets"
      and "first_missing compliance_missing (map (relabel g) assets) =
            first_missing compliance_missing assets"
      by (simp_all add: first_missing_map capacity_missing_relabel compliance_missing_relabel)
    with main_block_raised [of fs', OF that \<open>map (relabel g) assets \<noteq> []\<close>]
      main_block_raised [of fs, OF assms(1,2)]
    show ?thesis
      by (simp only:)
  qed
  have some: "\<forall>f k. first_missing f assets = Some k \<longrightarrow> (\<exists>a\<in>set assets. f a = Some k)"
    using first_missing_Some by blast
  have field: "\<forall>a k. capacity_missing a = Some k \<or> compliance_missing a = Some k \<longrightarrow>
            k \<in> set field_names \<and> \<not> has_field k a"
    using missing_is_field by blast
  have "\<forall>g fs'. fs' DATA_FILE = Some (map (relabel g) assets) \<longrightarrow>
            raised (main_block fs') = raised (main_block fs)"
    using ids by blast
  with run some field show ?thesis
    by (intro conjI)
qed

theorem missing_field_run_witness:
  "data_file_with [asset_A1, asset_partial] DATA_FILE = Some [asset_A1, asset_partial] \<and>
   [asset_A1, asset_partial] \<noteq> [] \<and>
   within_float_range [asset_A1, asset_partial] \<and>
   first_missing capacity_missing [asset_A1, asset_partial] = None \<and>
   first_missing compliance_missing [asset_A1, asset_partial] = None \<and>
   raised (main_block (data_file_with [asset_A1, asset_partial])) = None \<and>
   length (printed (main_block (data_file_with [asset_A1, asset_partial]))) = 1 \<and>
   data_file_with [asset_A1, asset_no_rack] DATA_FILE = Some [asset_A1, asset_no_rack] \<and>
   within_float_range [asset_A1, asset_no_rack] \<and>
   first_missing capacity_missing [asset_A1, asset_no_rack] = Some ''rack_id'' \<and>
   main_block (data_file_with [asset_A1, asset_no_rack]) =
     \<lparr>printed = [], raised = Some (KeyError ''rack_id'')\<rparr> \<and>
   capacity_missing asset_no_rack = Some ''rack_id'' \<and>
   ''rack_id'' \<in> set field_names \<and> \<not> has_field ''rack_id'' asset_no_rack"
proof -
  have f1: "data_file_with [asset_A1, asset_partial] DATA_FILE = Some [asset_A1, asset_partial]"
    and f2: "data_file_with [asset_A1, asset_no_rack] DATA_FILE = Some [asset_A1, asset_no_rack]"
    by (simp_all add: data_file_with_def)
  have "magnitude [asset_A1, asset_partial] < 2 ^ 10"
      "magnitude [asset_A1, asset_no_rack] < 2 ^ 10"
    by code_simp+
  then have r: "within_float_range [asset_A1, asset_partial]"
      "within_float_range [asset_A1, asset_no_rack]"
    by (simp_all only: within_float_rangeI)
  have m: "first_missing capacity_missing [asset_A1, asset_partial] = None"
      "first_missing compliance_missing [asset_A1, asset_partial] = None"
      "first_missing capacity_missing [asset_A1, asset_no_rack] = Some ''rack_id''"
      "capacity_missing asset_no_rack = Some ''rack_id''"
    by code_simp+
  note ok = missing_field_run [of "data_file_with [asset_A1, asset_partial]"
      "[asset_A1, asset_partial]", OF f1 _ r(1)]
  note bad = missing_field_run [of "data_file_with [asset_A1, asset_no_rack]"
      "[asset_A1, asset_no_rack]", OF f2 _ r(2)]
  from ok m(1,2) obtain report where
    "main_block (data_file_with [asset_A1, asset_partial]) = \<lparr>printed = [report], raised = None\<rparr>"
    by auto
  moreover from bad m(3)
  have "main_block (data_file_with [asset_A1, asset_no_rack]) =
          \<lparr>printed = [], raised = Some (KeyError ''rack_id'')\<rparr>"
    by simp
  moreover from bad m(4)
  have "''rack_id'' \<in> set field_names \<and> \<not> has_field ''rack_id'' asset_no_rack"
    by blast
  ultimately show ?thesis
    using f1 f2 r m by simp
qed

section \<open>Runs over the store\<close>



text \<open>
  C9 (determinism). Take two stores, each holding a list of asset dictionaries, with
  the same records in the same order. The three functions, run in one store and in the
  other, either raise the same exception or return the same report text; and a second
  run in the store that the first run left returns that text again.
\<close>

theorem report_is_deterministic:
  assumes "list_of_kind asset_of h assets" and "list_of_kind asset_of h' assets'"
    and "values_of asset_of h' assets' = values_of asset_of h assets"
  shows "value_of (report_h assets' h') = value_of (report_h assets h) \<and>
         (\<forall>t h1. report_h assets h = Inr (t, h1) \<longrightarrow> (\<exists>h2. report_h assets h1 = Inr (t, h2)))"
proof (cases "report_of (values_of asset_of h assets)")
  case (Inl e)
  with report_h_refines [OF assms(1)] report_h_refines [OF assms(2)] assms(3)
  show ?thesis by (simp add: value_of_def)
next
  case (Inr t)
  with report_h_refines [OF assms(1)] obtain h1
    where run1: "report_h assets h = Inr (t, h1)" and pre1: "take (length h) h1 = h"
    by auto
  from Inr report_h_refines [OF assms(2)] assms(3) obtain h2
    where run2: "report_h assets' h' = Inr (t, h2)"
    by auto
  from list_of_kind_extend [OF assms(1) pre1]
  have wf1: "list_of_kind asset_of h1 assets"
    and vals1: "values_of asset_of h1 assets = values_of asset_of h assets" by simp_all
  from Inr report_h_refines [OF wf1] vals1 obtain h3
    where run3: "report_h assets h1 = Inr (t, h3)"
    by auto
  from run1 run2 run3 show ?thesis
    by (simp add: value_of_def)
qed

theorem report_is_deterministic_witness:
  "list_of_kind asset_of sample_heap 2 \<and>
   report_h 2 sample_heap =
     Inr (sample_report, sample_heap @ sample_analyzed @ sample_checked 7) \<and>
   list_of_kind asset_of (sample_heap @ sample_analyzed @ sample_checked 7) 2 \<and>
   values_of asset_of (sample_heap @ sample_analyzed @ sample_checked 7) 2 =
     values_of asset_of sample_heap 2 \<and>
   value_of (report_h 2 (sample_heap @ sample_analyzed @ sample_checked 7)) =
     value_of (report_h 2 sample_heap) \<and>
   value_of (report_h 2 (sample_heap @ sample_analyzed @ sample_checked 7)) = Inr sample_report"
proof -
  let ?h1 = "sample_heap @ sample_analyzed @ sample_checked 7"
  have wf: "list_of_kind asset_of sample_heap 2"
    by (simp add: list_of_kind_def sample_heap_def asset_of_def)
  have ev: "report_h 2 sample_heap = Inr (sample_report, ?h1)"
    by code_simp
  have pre: "take (length sample_heap) ?h1 = sample_heap"
    by simp
  from list_of_kind_extend [OF wf pre]
  have wf1: "list_of_kind asset_of ?h1 2"
    and vs1: "values_of asset_of ?h1 2 = values_of asset_of sample_heap 2"
    by simp_all
  from report_is_deterministic [OF wf wf1 vs1] ev
  have "value_of (report_h 2 ?h1) = value_of (report_h 2 sample_heap)"
    and "\<exists>h2. report_h 2 ?h1 = Inr (sample_report, h2)"
    by blast+
  with wf wf1 vs1 ev show ?thesis by (auto simp: value_of_def)
qed

end
